theory Spec2Isabelle
  imports Main
begin

section \<open>Data model of \<open>src/App.tsx\<close>\<close>

text \<open>
  A TypeScript \<open>number[][]\<close> is a list of rows of integers. Coordinates are integral
  JavaScript numbers, modelled as \<open>int\<close>; they are only compared with 0, 10 and 20. The
  score is a double that is added to: its addition is \<open>jsAdd\<close> below.
  Board cells hold \<open>0\<close> (empty) or \<open>1\<close> (settled); the display copy also holds \<open>2\<close>.
\<close>

type_synonym TetrominoShape = "int list list"
type_synonym grid = "int list list"

text \<open>
  \<open>TypeError\<close>: JavaScript raises (a property read or write on \<open>undefined\<close>).
  \<open>NotDense\<close>: JavaScript does not raise, but the operation produces a value outside
  dense \<open>number[][]\<close> (a write past the end of a row or at a negative index, a read of
  \<open>undefined\<close> stored into a shape). The model stops there with this value.
  \<open>Inexact\<close>: JavaScript does not raise, but an addition of doubles leaves the range in
  which it is the addition of integers. The model stops there with this value.
\<close>

datatype error = TypeError | NotDense | Inexact

definition BOARD_WIDTH :: nat where
  "BOARD_WIDTH = 10"

definition BOARD_HEIGHT :: nat where
  "BOARD_HEIGHT = 20"

text \<open>The keys of the table \<open>TETROMINOS\<close>: \<open>K_I\<close> is the key \<open>I\<close>, and so on.\<close>

datatype tetromino = K_I | K_O | K_T | K_S | K_Z | K_J | K_L

fun TETROMINOS :: "tetromino \<Rightarrow> TetrominoShape" where
  "TETROMINOS K_I = [[1, 1, 1, 1]]"
| "TETROMINOS K_O = [[1, 1], [1, 1]]"
| "TETROMINOS K_T = [[0, 1, 0], [1, 1, 1]]"
| "TETROMINOS K_S = [[0, 1, 1], [1, 1, 0]]"
| "TETROMINOS K_Z = [[1, 1, 0], [0, 1, 1]]"
| "TETROMINOS K_J = [[1, 0, 0], [1, 1, 1]]"
| "TETROMINOS K_L = [[0, 0, 1], [1, 1, 1]]"

definition emptyRow :: "int list" where
  "emptyRow = replicate BOARD_WIDTH 0"

definition emptyBoard :: grid where
  "emptyBoard = replicate BOARD_HEIGHT emptyRow"

section \<open>The collision rule \<open>canMove\<close> (lines 53--73)\<close>

text \<open>
  \<open>board[newY][newX]\<close> read for its truthiness: \<open>board[newY]\<close> is \<open>undefined\<close> outside the
  rows, and indexing \<open>undefined\<close> raises; a column outside the row reads \<open>undefined\<close>, which
  is falsy.
\<close>

definition boardCell :: "grid \<Rightarrow> int \<Rightarrow> int \<Rightarrow> error + bool" where
  "boardCell board newY newX =
     (if newY < 0 \<or> int (length board) \<le> newY then Inl TypeError
      else let r = board ! nat newY
           in Inr (0 \<le> newX \<and> newX < int (length r) \<and> r ! nat newX \<noteq> 0))"

text \<open>
  The inner loop over \<open>col\<close>, from the cells not yet visited; \<open>newX\<close> is \<open>x + col\<close> of the
  first of them.
  \<open>Inr True\<close>: the loop ended without \<open>return false\<close>.
\<close>

fun canMoveCols :: "grid \<Rightarrow> int list \<Rightarrow> int \<Rightarrow> int \<Rightarrow> error + bool" where
  "canMoveCols board [] newX newY = Inr True"
| "canMoveCols board (c # cs) newX newY =
     (if c \<noteq> 0 then
        (if newX < 0 \<or> newX \<ge> int BOARD_WIDTH \<or> newY \<ge> int BOARD_HEIGHT then Inr False
         else if newY \<ge> 0 then
           (case boardCell board newY newX of
              Inl e \<Rightarrow> Inl e
            | Inr hit \<Rightarrow> if hit then Inr False else canMoveCols board cs (newX + 1) newY)
         else canMoveCols board cs (newX + 1) newY)
      else canMoveCols board cs (newX + 1) newY)"

text \<open>The outer loop over \<open>row\<close>; \<open>newY\<close> is \<open>y + row\<close> of the first row not yet visited.\<close>

fun canMoveRows :: "grid \<Rightarrow> TetrominoShape \<Rightarrow> int \<Rightarrow> int \<Rightarrow> error + bool" where
  "canMoveRows board [] x newY = Inr True"
| "canMoveRows board (r # rs) x newY =
     (case canMoveCols board r x newY of
        Inl e \<Rightarrow> Inl e
      | Inr ok \<Rightarrow> if ok then canMoveRows board rs x (newY + 1) else Inr False)"

definition canMove :: "grid \<Rightarrow> TetrominoShape \<Rightarrow> int \<Rightarrow> int \<Rightarrow> error + bool" where
  "canMove board piece x y = canMoveRows board piece x y"

section \<open>Committing the piece and clearing lines (lines 79--103)\<close>

text \<open>
  The assignment \<open>g[y][x] = v\<close>. \<open>g[y]\<close> is \<open>undefined\<close> outside the rows, and the write
  raises. At \<open>x = length\<close> JavaScript appends; further right it leaves holes, and at a
  negative \<open>x\<close> it sets a property that is no array element.
\<close>

definition setCell :: "grid \<Rightarrow> int \<Rightarrow> int \<Rightarrow> int \<Rightarrow> error + grid" where
  "setCell g y x v =
     (if y < 0 \<or> int (length g) \<le> y then Inl TypeError
      else let r = g ! nat y
           in if x < 0 \<or> int (length r) < x then Inl NotDense
              else if x = int (length r) then Inr (g[nat y := r @ [v]])
              else Inr (g[nat y := r[nat x := v]]))"

text \<open>
  Lines 82--92. The copy \<open>board.map(row => [...row])\<close> is the grid itself in a pure model;
  \<open>x\<close> and \<open>y\<close> are \<open>piecePosition.x + col\<close> and \<open>piecePosition.y + row\<close> of the first cell
  (row) not yet visited.
\<close>

fun placeCols :: "grid \<Rightarrow> int list \<Rightarrow> int \<Rightarrow> int \<Rightarrow> error + grid" where
  "placeCols newBoard [] x y = Inr newBoard"
| "placeCols newBoard (c # cs) x y =
     (if c \<noteq> 0 \<and> y \<ge> 0 then
        (case setCell newBoard y x 1 of
           Inl e \<Rightarrow> Inl e
         | Inr newBoard' \<Rightarrow> placeCols newBoard' cs (x + 1) y)
      else placeCols newBoard cs (x + 1) y)"

fun placeRows :: "grid \<Rightarrow> TetrominoShape \<Rightarrow> int \<Rightarrow> int \<Rightarrow> error + grid" where
  "placeRows newBoard [] x y = Inr newBoard"
| "placeRows newBoard (r # rs) x y =
     (case placeCols newBoard r x y of
        Inl e \<Rightarrow> Inl e
      | Inr newBoard' \<Rightarrow> placeRows newBoard' rs x (y + 1))"

definition place :: "grid \<Rightarrow> TetrominoShape \<Rightarrow> int \<Rightarrow> int \<Rightarrow> error + grid" where
  "place board piece x y = placeRows board piece x y"

text \<open>\<open>newBoard[row].every(cell => cell === 1)\<close>, for a row that exists.\<close>

definition fullRow :: "int list \<Rightarrow> bool" where
  "fullRow r = list_all (\<lambda>cell. cell = 1) r"

text \<open>
  Lines 96--103, from the loop variable \<open>row\<close> on. After a removal \<open>row++\<close> and the loop's
  \<open>row--\<close> leave \<open>row\<close> as it is. \<open>splice(row, 1)\<close> removes the row, \<open>unshift\<close> puts a fresh
  empty row in front.
\<close>

function clearLines :: "int \<Rightarrow> grid \<Rightarrow> nat \<Rightarrow> error + grid \<times> nat" where
  "clearLines row newBoard linesCleared =
     (if row < 0 then Inr (newBoard, linesCleared)
      else if int (length newBoard) \<le> row then Inl TypeError
      else if fullRow (newBoard ! nat row) then
        clearLines row
          (emptyRow # (take (nat row) newBoard @ drop (Suc (nat row)) newBoard))
          (linesCleared + 1)
      else clearLines (row - 1) newBoard linesCleared)"
  by pat_completeness auto
termination
proof (relation "measure (\<lambda>(row, newBoard, linesCleared). length (filter fullRow newBoard) + nat (row + 1))")
  show "wf (measure (\<lambda>(row, newBoard, linesCleared). length (filter fullRow newBoard) + nat (row + 1)))"
    by simp
next
  fix row :: int and newBoard :: grid and linesCleared :: nat
  assume a: "\<not> row < 0" "\<not> int (length newBoard) \<le> row" "fullRow (newBoard ! nat row)"
  have i: "nat row < length newBoard" using a(1,2) by simp
  have split: "newBoard = take (nat row) newBoard @ newBoard ! nat row # drop (Suc (nat row)) newBoard"
    using i by (rule id_take_nth_drop)
  have "length (filter fullRow newBoard)
      = length (filter fullRow (take (nat row) newBoard)) + 1
        + length (filter fullRow (drop (Suc (nat row)) newBoard))"
    using a(3) by (subst split) simp
  moreover have "\<not> fullRow emptyRow"
    by (simp add: fullRow_def emptyRow_def BOARD_WIDTH_def list_all_iff)
  ultimately show "((row, emptyRow # (take (nat row) newBoard @ drop (Suc (nat row)) newBoard), linesCleared + 1),
          (row, newBoard, linesCleared))
        \<in> measure (\<lambda>(row, newBoard, linesCleared). length (filter fullRow newBoard) + nat (row + 1))"
    by simp
next
  fix row :: int and newBoard :: grid and linesCleared :: nat
  assume "\<not> row < 0"
  then show "((row - 1, newBoard, linesCleared), (row, newBoard, linesCleared))
        \<in> measure (\<lambda>(row, newBoard, linesCleared). length (filter fullRow newBoard) + nat (row + 1))"
    by simp
qed

text \<open>The spec's \<open>clearFullRows\<close>: the loop started at \<open>BOARD_HEIGHT - 1\<close> with no line counted.\<close>

definition clearFullRows :: "grid \<Rightarrow> error + grid \<times> nat" where
  "clearFullRows newBoard = clearLines (int BOARD_HEIGHT - 1) newBoard 0"

section \<open>Rotation (lines 178--180)\<close>

text \<open>
  \<open>currentPiece[0].map((_, i) => currentPiece.map(row => row[i]).reverse())\<close>:
  \<open>currentPiece[0]\<close> of an empty shape is \<open>undefined\<close> and \<open>.map\<close> on it raises; \<open>row[i]\<close>
  past the end of a shorter row is \<open>undefined\<close>.
\<close>

definition rotateClockwise :: "TetrominoShape \<Rightarrow> error + TetrominoShape" where
  "rotateClockwise currentPiece =
     (case currentPiece of
        [] \<Rightarrow> Inl TypeError
      | r0 # _ \<Rightarrow>
          if list_all (\<lambda>row. length r0 \<le> length row) currentPiece
          then Inr (map (\<lambda>i. rev (map (\<lambda>row. row ! i) currentPiece)) [0..<length r0])
          else Inl NotDense)"

section \<open>The component state and its handlers\<close>

text \<open>
  The React state of \<open>App\<close>. \<open>piecePosition\<close> is the pair \<open>(x, y)\<close>; \<open>ws\<close> says that
  \<open>ws.current\<close> holds a socket. A value of this type is the current state, or the state
  of the render a closure was made in.
\<close>

record state =
  board :: grid
  currentPiece :: "TetrominoShape option"
  piecePosition :: "int \<times> int"
  score :: int
  gameOver :: bool
  gameStarted :: bool
  roomId :: string
  playerId :: string
  connected :: bool
  opponentBoard :: grid
  ws :: bool

definition initialState :: state where
  "initialState =
     \<lparr>board = emptyBoard, currentPiece = None, piecePosition = (0, 0), score = 0,
      gameOver = False, gameStarted = False, roomId = [], playerId = [],
      connected = False, opponentBoard = emptyBoard, ws = False\<rparr>"

text \<open>Outbound frames: \<open>{type: 'game_over', score}\<close> and \<open>{type: 'game_state', state: {board, score}}\<close>.\<close>

datatype outMessage = game_over int | game_state grid int

text \<open>Inbound frames by their \<open>type\<close>; \<open>other_type\<close> is any frame the handler has no branch for.\<close>

datatype inMessage =
    player_id string
  | player_joined string
  | opponent_state grid int
  | player_game_over int
  | other_type

text \<open>\<open>if (ws.current && connected) ws.current.send(...)\<close>.\<close>

definition send :: "state \<Rightarrow> outMessage \<Rightarrow> outMessage list" where
  "send s m = (if ws s \<and> connected s then [m] else [])"

text \<open>\<open>Math.floor(BOARD_WIDTH / 2) - Math.floor(newPiece[0].length / 2)\<close>.\<close>

definition startX :: "TetrominoShape \<Rightarrow> int" where
  "startX newPiece = int (BOARD_WIDTH div 2) - int (length (newPiece ! 0) div 2)"

text \<open>
  The calls of state setters a handler makes, in their order. A handler reads the state
  of the render its closure was made in; React applies the calls afterwards, to the state
  that is current then. \<open>setScore_add n\<close> is \<open>setScore(prev => prev + n)\<close>, which reads the
  current score; the other four store a value the handler computed.
\<close>

datatype update =
    setScore_add int
  | setBoard grid
  | setGameOver bool
  | setCurrentPiece TetrominoShape
  | setPiecePosition "int \<times> int"

text \<open>
  \<open>a + b\<close> on doubles that hold integers: the sum of the integers when the operands and
  the sum are within \<open>2^53\<close> of 0. Elsewhere the result may be rounded.
\<close>

definition exactInt :: "int \<Rightarrow> bool" where
  "exactInt i \<longleftrightarrow> - (2 ^ 53) \<le> i \<and> i \<le> 2 ^ 53"

definition jsAdd :: "int \<Rightarrow> int \<Rightarrow> error + int" where
  "jsAdd a b = (if exactInt a \<and> exactInt b \<and> exactInt (a + b) then Inr (a + b) else Inl Inexact)"

fun applyUpdate :: "update \<Rightarrow> state \<Rightarrow> error + state" where
  "applyUpdate (setScore_add n) s =
     (case jsAdd (score s) n of Inl e \<Rightarrow> Inl e | Inr v \<Rightarrow> Inr (s\<lparr>score := v\<rparr>))"
| "applyUpdate (setBoard b) s = Inr (s\<lparr>board := b\<rparr>)"
| "applyUpdate (setGameOver g) s = Inr (s\<lparr>gameOver := g\<rparr>)"
| "applyUpdate (setCurrentPiece p) s = Inr (s\<lparr>currentPiece := Some p\<rparr>)"
| "applyUpdate (setPiecePosition xy) s = Inr (s\<lparr>piecePosition := xy\<rparr>)"

fun applyUpdates :: "update list \<Rightarrow> state \<Rightarrow> error + state" where
  "applyUpdates [] s = Inr s"
| "applyUpdates (u # us) s =
     (case applyUpdate u s of Inl e \<Rightarrow> Inl e | Inr s' \<Rightarrow> applyUpdates us s')"

text \<open>
  A handler's result (its calls and the messages it sent, or an exception) put into
  effect on the current state \<open>s\<close>.
\<close>

definition commit :: "error + update list \<times> outMessage list \<Rightarrow> state \<Rightarrow> error + state \<times> outMessage list" where
  "commit r s =
     (case r of
        Inl e \<Rightarrow> Inl e
      | Inr (us, out) \<Rightarrow>
          (case applyUpdates us s of Inl e \<Rightarrow> Inl e | Inr s' \<Rightarrow> Inr (s', out)))"

text \<open>
  \<open>placePiece\<close> (lines 76--139) run in the closure of render \<open>c\<close>; \<open>k\<close> is the key
  \<open>getRandomPiece\<close> draws. The closure holds the \<open>board\<close> and the \<open>score\<close> of that render:
  \<open>canMove\<close> at line 117 reads that \<open>board\<close>, and both messages carry that \<open>score\<close>. An
  exception ends the handler; the model returns it in place of the calls.
\<close>

definition placePieceC :: "tetromino \<Rightarrow> state \<Rightarrow> error + update list \<times> outMessage list" where
  "placePieceC k c =
     (case currentPiece c of
        None \<Rightarrow> Inr ([], [])
      | Some piece \<Rightarrow>
          (case place (board c) piece (fst (piecePosition c)) (snd (piecePosition c)) of
             Inl e \<Rightarrow> Inl e
           | Inr placed \<Rightarrow>
               (case clearFullRows placed of
                  Inl e \<Rightarrow> Inl e
                | Inr (newBoard, linesCleared) \<Rightarrow>
                    let calls = (if linesCleared > 0 then [setScore_add (int linesCleared * 100)]
                                 else []) @ [setBoard newBoard];
                        newPiece = TETROMINOS k
                    in (case canMove (board c) newPiece (startX newPiece) 0 of
                          Inl e \<Rightarrow> Inl e
                        | Inr ok \<Rightarrow>
                            if \<not> ok then Inr (calls @ [setGameOver True],
                                              send c (game_over (score c)))
                            else Inr (calls @ [setCurrentPiece newPiece,
                                               setPiecePosition (startX newPiece, 0)],
                                      send c (game_state newBoard (score c)))))))"

text \<open>\<open>moveDown\<close> (lines 142--153) run in the closure of render \<open>c\<close>.\<close>

definition moveDownC :: "tetromino \<Rightarrow> state \<Rightarrow> error + update list \<times> outMessage list" where
  "moveDownC k c =
     (case currentPiece c of
        None \<Rightarrow> Inr ([], [])
      | Some piece \<Rightarrow>
          if gameOver c then Inr ([], [])
          else let newY = snd (piecePosition c) + 1
               in (case canMove (board c) piece (fst (piecePosition c)) newY of
                     Inl e \<Rightarrow> Inl e
                   | Inr ok \<Rightarrow>
                       if ok then Inr ([setPiecePosition (fst (piecePosition c), newY)], [])
                       else placePieceC k c))"

datatype key = ArrowLeft | ArrowRight | ArrowDown | ArrowUp | OtherKey

text \<open>The lateral cases of \<open>handleKeyPress\<close> (lines 160--171), \<open>dx\<close> being \<open>-1\<close> or \<open>1\<close>.\<close>

definition moveLateralC :: "int \<Rightarrow> TetrominoShape \<Rightarrow> state \<Rightarrow> error + update list \<times> outMessage list" where
  "moveLateralC dx piece c =
     (case canMove (board c) piece (fst (piecePosition c) + dx) (snd (piecePosition c)) of
        Inl e \<Rightarrow> Inl e
      | Inr ok \<Rightarrow>
          if ok then Inr ([setPiecePosition (fst (piecePosition c) + dx, snd (piecePosition c))], [])
          else Inr ([], []))"

text \<open>The case \<open>ArrowUp\<close> (lines 176--184).\<close>

definition rotatePieceC :: "TetrominoShape \<Rightarrow> state \<Rightarrow> error + update list \<times> outMessage list" where
  "rotatePieceC piece c =
     (case rotateClockwise piece of
        Inl e \<Rightarrow> Inl e
      | Inr rotated \<Rightarrow>
          (case canMove (board c) rotated (fst (piecePosition c)) (snd (piecePosition c)) of
             Inl e \<Rightarrow> Inl e
           | Inr ok \<Rightarrow> if ok then Inr ([setCurrentPiece rotated], []) else Inr ([], [])))"

text \<open>\<open>handleKeyPress\<close> (lines 156--186) run in the closure of render \<open>c\<close>.\<close>

definition handleKeyPressC :: "key \<Rightarrow> tetromino \<Rightarrow> state \<Rightarrow> error + update list \<times> outMessage list" where
  "handleKeyPressC e k c =
     (case currentPiece c of
        None \<Rightarrow> Inr ([], [])
      | Some piece \<Rightarrow>
          if gameOver c then Inr ([], [])
          else (case e of
                  ArrowLeft \<Rightarrow> moveLateralC (- 1) piece c
                | ArrowRight \<Rightarrow> moveLateralC 1 piece c
                | ArrowDown \<Rightarrow> moveDownC k c
                | ArrowUp \<Rightarrow> rotatePieceC piece c
                | OtherKey \<Rightarrow> Inr ([], [])))"

text \<open>
  \<open>placePiece\<close> when the closure is that of the current state: the handler reads \<open>s\<close> and
  its calls are applied to \<open>s\<close>.
\<close>

definition placePiece :: "tetromino \<Rightarrow> state \<Rightarrow> error + state \<times> outMessage list" where
  "placePiece k s = commit (placePieceC k s) s"

text \<open>
  \<open>startGame\<close> (lines 263--278); \<open>k\<close> is the key \<open>getRandomPiece\<close> draws. It reads no state
  and every call stores a value, so it is a function of the current state. The same
  holds for \<open>joinRoom\<close> and the socket's handlers below.
\<close>

definition startGame :: "tetromino \<Rightarrow> state \<Rightarrow> state" where
  "startGame k s =
     (let firstPiece = TETROMINOS k
      in s\<lparr>board := emptyBoard, score := 0, gameOver := False,
            currentPiece := Some firstPiece, piecePosition := (startX firstPiece, 0),
            gameStarted := True\<rparr>)"

text \<open>\<open>joinRoom\<close> with \<open>connectWebSocket\<close> (lines 221--231), and the socket's handlers.\<close>

definition joinRoom :: "string \<Rightarrow> state \<Rightarrow> state" where
  "joinRoom roomIdInput s = s\<lparr>roomId := roomIdInput, ws := True\<rparr>"

definition onopen :: "state \<Rightarrow> state" where
  "onopen s = s\<lparr>connected := True\<rparr>"

definition onclose :: "state \<Rightarrow> state" where
  "onclose s = s\<lparr>connected := False\<rparr>"

definition onmessage :: "inMessage \<Rightarrow> state \<Rightarrow> state" where
  "onmessage message s =
     (case message of
        player_id p \<Rightarrow> s\<lparr>playerId := p\<rparr>
      | player_joined p \<Rightarrow> s
      | opponent_state g sc \<Rightarrow> s\<lparr>opponentBoard := g\<rparr>
      | player_game_over sc \<Rightarrow> s
      | other_type \<Rightarrow> s)"

section \<open>Rendering (lines 281--364)\<close>






section \<open>Events\<close>

text \<open>
  One event is one handler run to completion. The buttons exist only in the views that
  show them (lines 319--341), the interval only while the game runs (line 196), the
  socket's handlers only once a socket was made. \<open>ClickJoinRoom r\<close> is \<open>joinRoom\<close> with the
  room typed in, or \<open>createRoom\<close> whose request was answered with room \<open>r\<close>: both set
  \<open>roomId\<close> and call \<open>connectWebSocket\<close>. A key in \<open>KeyDown\<close>, \<open>Tick\<close> and \<open>ClickStart\<close> is
  what \<open>getRandomPiece\<close> returns if the handler calls it.
\<close>

datatype event =
    ClickJoinRoom string
  | ClickStart tetromino
  | KeyDown key tetromino
  | Tick tetromino
  | WsOpen
  | WsClose
  | WsMessage inMessage

text \<open>
  One event handled in the closure of render \<open>c\<close> while the current state is \<open>s\<close>. What
  the page shows and which listeners are installed is decided by the render; the calls
  are applied to \<open>s\<close>. \<open>ws.current\<close> is a ref, not state: a closure reads the current one.
\<close>

definition fire :: "event \<Rightarrow> state \<Rightarrow> state \<Rightarrow> error + state \<times> outMessage list" where
  "fire ev c s =
     (case ev of
        ClickJoinRoom r \<Rightarrow> Inr (if connected c then s else joinRoom r s, [])
      | ClickStart k \<Rightarrow> Inr (if connected c \<and> \<not> gameStarted c then startGame k s else s, [])
      | KeyDown e k \<Rightarrow> commit (handleKeyPressC e k (c\<lparr>ws := ws s\<rparr>)) s
      | Tick k \<Rightarrow>
          if \<not> gameStarted c \<or> gameOver c then Inr (s, [])
          else commit (moveDownC k (c\<lparr>ws := ws s\<rparr>)) s
      | WsOpen \<Rightarrow> Inr (if ws s then onopen s else s, [])
      | WsClose \<Rightarrow> Inr (if ws s then onclose s else s, [])
      | WsMessage m \<Rightarrow> Inr (if ws s then onmessage m s else s, []))"

text \<open>An event handled after the page was rendered again: the closure is the current state.\<close>

definition step :: "event \<Rightarrow> state \<Rightarrow> error + state \<times> outMessage list" where
  "step ev s = fire ev s s"

text \<open>
  A sequence of events from a state, with every message sent on the way, each event
  coming after the render and the effects that follow the one before it.
\<close>

fun run :: "event list \<Rightarrow> state \<Rightarrow> error + state \<times> outMessage list" where
  "run [] s = Inr (s, [])"
| "run (ev # evs) s =
     (case step ev s of
        Inl e \<Rightarrow> Inl e
      | Inr (s1, out1) \<Rightarrow>
          (case run evs s1 of
             Inl e \<Rightarrow> Inl e
           | Inr (s2, out2) \<Rightarrow> Inr (s2, out1 @ out2)))"

text \<open>
  The listeners of lines 189--203 are those of the last render whose effects have run:
  an event that comes before the next render is handled in the old closure. \<open>Rerender\<close>
  makes the closure the current state; \<open>Handle ev\<close> handles \<open>ev\<close> in the closure \<open>c\<close> there is.
\<close>

datatype occurrence = Handle event | Rerender

fun runStale :: "occurrence list \<Rightarrow> state \<Rightarrow> state \<Rightarrow> error + state \<times> outMessage list" where
  "runStale [] c s = Inr (s, [])"
| "runStale (Rerender # os) c s = runStale os s s"
| "runStale (Handle ev # os) c s =
     (case fire ev c s of
        Inl e \<Rightarrow> Inl e
      | Inr (s1, out1) \<Rightarrow>
          (case runStale os c s1 of
             Inl e \<Rightarrow> Inl e
           | Inr (s2, out2) \<Rightarrow> Inr (s2, out1 @ out2)))"

text \<open>Every event followed by a render.\<close>

definition spaced :: "event list \<Rightarrow> occurrence list" where
  "spaced evs = concat (map (\<lambda>ev. [Handle ev, Rerender]) evs)"

section \<open>Well-formed boards and shapes\<close>

definition is_grid :: "grid \<Rightarrow> bool" where
  "is_grid g \<longleftrightarrow> length g = BOARD_HEIGHT \<and> list_all (\<lambda>r. length r = BOARD_WIDTH) g"

definition cells01 :: "grid \<Rightarrow> bool" where
  "cells01 g \<longleftrightarrow> list_all (list_all (\<lambda>c. c = 0 \<or> c = 1)) g"

text \<open>A board of the program: 20 rows of 10 cells, each empty (0) or settled (1).\<close>

definition is_board :: "grid \<Rightarrow> bool" where
  "is_board b \<longleftrightarrow> is_grid b \<and> cells01 b"

text \<open>The cell of shape \<open>piece\<close> at \<open>(row, col)\<close> is occupied (truthy).\<close>

definition occupied :: "TetrominoShape \<Rightarrow> nat \<Rightarrow> nat \<Rightarrow> bool" where
  "occupied piece row col \<longleftrightarrow> row < length piece \<and> col < length (piece ! row) \<and> piece ! row ! col \<noteq> 0"

text \<open>The spec's legality of one cell at board position \<open>(bx, by)\<close>.\<close>

definition cellLegal :: "grid \<Rightarrow> int \<Rightarrow> int \<Rightarrow> bool" where
  "cellLegal b bx by \<longleftrightarrow>
     0 \<le> bx \<and> bx < int BOARD_WIDTH \<and> by < int BOARD_HEIGHT \<and>
     (0 \<le> by \<longrightarrow> b ! nat by ! nat bx \<noteq> 1)"

text \<open>Board cell \<open>(i, j)\<close> (row, column) is under an occupied cell of the shape at offset \<open>(x, y)\<close>.\<close>

definition covers :: "TetrominoShape \<Rightarrow> int \<Rightarrow> int \<Rightarrow> nat \<Rightarrow> nat \<Rightarrow> bool" where
  "covers piece x y i j \<longleftrightarrow>
     y \<le> int i \<and> x \<le> int j \<and> occupied piece (nat (int i - y)) (nat (int j - x))"

text \<open>A shape with at least one row and one column, all rows of one length.\<close>

definition rectangular :: "TetrominoShape \<Rightarrow> bool" where
  "rectangular p \<longleftrightarrow> p \<noteq> [] \<and> hd p \<noteq> [] \<and> list_all (\<lambda>r. length r = length (hd p)) p"

text \<open>\<open>n\<close> rotations in a row, each as \<open>ArrowUp\<close> computes it.\<close>

fun rotateTimes :: "nat \<Rightarrow> TetrominoShape \<Rightarrow> error + TetrominoShape" where
  "rotateTimes 0 p = Inr p"
| "rotateTimes (Suc n) p =
     (case rotateClockwise p of Inl e \<Rightarrow> Inl e | Inr q \<Rightarrow> rotateTimes n q)"

text \<open>Every occupied cell of the shape is inside the side and bottom walls: the shape is legal on the empty board.\<close>

definition inBounds :: "TetrominoShape \<Rightarrow> int \<Rightarrow> int \<Rightarrow> bool" where
  "inBounds p x y \<longleftrightarrow> canMove emptyBoard p x y = Inr True"

text \<open>No call in the list lowers the score.\<close>

definition raisesOnly :: "update list \<Rightarrow> bool" where
  "raisesOnly us = list_all (\<lambda>u. case u of setScore_add n \<Rightarrow> 0 \<le> n | _ \<Rightarrow> True) us"

section \<open>Facts about the initial board\<close>

lemma is_board_emptyBoard: "is_board emptyBoard"
  by (simp add: is_board_def is_grid_def cells01_def emptyBoard_def emptyRow_def
      BOARD_HEIGHT_def BOARD_WIDTH_def list_all_iff)

section \<open>The collision rule\<close>

lemma boardCell_board:
  assumes "is_board b" "0 \<le> newY" "newY < int BOARD_HEIGHT" "0 \<le> newX" "newX < int BOARD_WIDTH"
  shows "boardCell b newY newX = Inr (b ! nat newY ! nat newX = 1)"
proof -
  have len: "length b = BOARD_HEIGHT" using assms(1) by (simp add: is_board_def is_grid_def)
  have iy: "nat newY < length b" using assms(2,3) len by simp
  have row: "length (b ! nat newY) = BOARD_WIDTH \<and> list_all (\<lambda>c. c = 0 \<or> c = 1) (b ! nat newY)"
    using assms(1) iy by (simp add: is_board_def is_grid_def cells01_def list_all_length)
  have ix: "nat newX < length (b ! nat newY)" using assms(4,5) row by simp
  have "b ! nat newY ! nat newX = 0 \<or> b ! nat newY ! nat newX = 1"
    using row ix by (simp add: list_all_length)
  then show ?thesis using assms(2,3,4,5) len row
    by (auto simp: boardCell_def Let_def)
qed

lemma canMoveCols_iff:
  assumes "is_board b"
  shows "canMoveCols b cs newX newY =
     Inr (\<forall>col<length cs. cs ! col \<noteq> 0 \<longrightarrow> cellLegal b (newX + int col) newY)"
proof (induction cs arbitrary: newX)
  case Nil
  show ?case by simp
next
  case (Cons c cs)
  have shift: "(\<forall>col<length cs. cs ! col \<noteq> 0 \<longrightarrow> cellLegal b (newX + 1 + int col) newY)
      = (\<forall>col<length cs. (c # cs) ! Suc col \<noteq> 0 \<longrightarrow> cellLegal b (newX + int (Suc col)) newY)"
    by (simp add: ac_simps)
  show ?case
  proof (cases "c = 0")
    case True
    then show ?thesis using Cons.IH [of "newX + 1"] shift
      by (simp add: All_less_Suc2)
  next
    case False
    show ?thesis
    proof (cases "newX < 0 \<or> newX \<ge> int BOARD_WIDTH \<or> newY \<ge> int BOARD_HEIGHT")
      case True
      then show ?thesis using False by (auto simp: All_less_Suc2 cellLegal_def)
    next
      case inb: False
      show ?thesis
      proof (cases "newY \<ge> 0")
        case True
        then have bc: "boardCell b newY newX = Inr (b ! nat newY ! nat newX = 1)"
          using boardCell_board [OF assms] inb by simp
        show ?thesis using False inb True bc Cons.IH [of "newX + 1"] shift
          by (simp add: All_less_Suc2 cellLegal_def)
      next
        case neg: False
        show ?thesis using False inb neg Cons.IH [of "newX + 1"] shift
          by (simp add: All_less_Suc2 cellLegal_def)
      qed
    qed
  qed
qed

lemma canMoveRows_iff:
  assumes "is_board b"
  shows "canMoveRows b rs x newY =
     Inr (\<forall>row<length rs. \<forall>col<length (rs ! row). rs ! row ! col \<noteq> 0 \<longrightarrow>
            cellLegal b (x + int col) (newY + int row))"
proof (induction rs arbitrary: newY)
  case Nil
  show ?case by simp
next
  case (Cons r rs)
  have shift: "(\<forall>row<length rs. \<forall>col<length (rs ! row). rs ! row ! col \<noteq> 0 \<longrightarrow>
            cellLegal b (x + int col) (newY + 1 + int row))
     = (\<forall>row<length rs. \<forall>col<length ((r # rs) ! Suc row). (r # rs) ! Suc row ! col \<noteq> 0 \<longrightarrow>
            cellLegal b (x + int col) (newY + int (Suc row)))"
    by (simp add: ac_simps)
  show ?case using canMoveCols_iff [OF assms, of r x newY] Cons.IH [of "newY + 1"] shift
    by (simp add: All_less_Suc2)
qed

lemma canMove_eq:
  assumes "is_board b"
  shows "canMove b piece x y =
     Inr (\<forall>row col. occupied piece row col \<longrightarrow> cellLegal b (x + int col) (y + int row))"
  unfolding canMove_def canMoveRows_iff [OF assms] occupied_def by auto

text \<open>
  Claim C1. On every board (20 rows of 10 cells, each 0 or 1), for every shape and every
  integer offset, \<open>canMove\<close> returns, and returns true exactly when every occupied cell
  of the shape lands in a column of \<open>[0, width)\<close> and a row below \<open>height\<close>, with no lower
  bound on the row, on a cell that is not settled whenever its row is not negative.
\<close>

theorem canMove_iff:
  assumes "is_board b"
  shows "canMove b piece x y =
     Inr (\<forall>row col. occupied piece row col \<longrightarrow> cellLegal b (x + int col) (y + int row))"
  using assms by (rule canMove_eq)

theorem canMove_iff_witness:
  "is_board emptyBoard \<and> canMove emptyBoard (TETROMINOS K_O) 4 0 = Inr True
   \<and> (\<forall>row col. occupied (TETROMINOS K_O) row col \<longrightarrow>
         cellLegal emptyBoard (4 + int col) (0 + int row)) = True"
proof -
  have e: "canMove emptyBoard (TETROMINOS K_O) 4 0 = Inr True" by code_simp
  show ?thesis
    using canMove_iff [OF is_board_emptyBoard, of "TETROMINOS K_O" 4 0] e is_board_emptyBoard
    by simp
qed

section \<open>Committing the piece\<close>

lemma is_grid_nth:
  assumes "is_grid g" "i < BOARD_HEIGHT"
  shows "i < length g" "length (g ! i) = BOARD_WIDTH"
  using assms by (simp_all add: is_grid_def list_all_length)

lemma is_grid_update:
  assumes "is_grid g" "length r = BOARD_WIDTH"
  shows "is_grid (g[a := r])"
proof -
  have rows: "\<forall>n<length g. length (g ! n) = BOARD_WIDTH"
    using assms(1) by (simp add: is_grid_def list_all_length)
  have "length (g[a := r] ! n) = BOARD_WIDTH" if "n < length g" for n
    using that rows assms(2) by (cases "n = a") simp_all
  then show ?thesis using assms(1) by (simp add: is_grid_def list_all_length)
qed

lemma setCell_grid:
  assumes "is_grid g" "0 \<le> y" "y < int BOARD_HEIGHT" "0 \<le> x" "x < int BOARD_WIDTH"
  shows "\<exists>g'. setCell g y x v = Inr g' \<and> is_grid g'
     \<and> (\<forall>i<BOARD_HEIGHT. \<forall>j<BOARD_WIDTH.
           g' ! i ! j = (if int i = y \<and> int j = x then v else g ! i ! j))"
proof -
  have iy: "nat y < BOARD_HEIGHT" using assms(2,3) by simp
  have ly: "nat y < length g" and lr: "length (g ! nat y) = BOARD_WIDTH"
    using is_grid_nth [OF assms(1) iy] by simp_all
  let ?g' = "g[nat y := (g ! nat y)[nat x := v]]"
  have eq: "setCell g y x v = Inr ?g'"
    using assms(2-5) ly lr by (simp add: setCell_def Let_def)
  have grid: "is_grid ?g'" using is_grid_update [OF assms(1)] lr by simp
  have cells: "\<forall>i<BOARD_HEIGHT. \<forall>j<BOARD_WIDTH.
           ?g' ! i ! j = (if int i = y \<and> int j = x then v else g ! i ! j)"
  proof (intro allI impI)
    fix i j assume i: "i < BOARD_HEIGHT" and j: "j < BOARD_WIDTH"
    have li: "i < length g" using is_grid_nth [OF assms(1) i] by simp
    have lj: "j < length (g ! i)" using is_grid_nth [OF assms(1) i] j by simp
    show "?g' ! i ! j = (if int i = y \<and> int j = x then v else g ! i ! j)"
    proof (cases "i = nat y")
      case True
      then show ?thesis using li lj assms(2,4)
        by (auto simp: nth_list_update)
    next
      case False
      then show ?thesis using li assms(2) by (auto simp: nth_list_update)
    qed
  qed
  show ?thesis using eq grid cells by blast
qed

lemma placeCols_grid:
  assumes "is_grid g"
    and "\<forall>col<length cs. cs ! col \<noteq> 0 \<longrightarrow>
           0 \<le> x + int col \<and> x + int col < int BOARD_WIDTH \<and> y < int BOARD_HEIGHT"
  shows "\<exists>g'. placeCols g cs x y = Inr g' \<and> is_grid g'
     \<and> (\<forall>i<BOARD_HEIGHT. \<forall>j<BOARD_WIDTH.
           g' ! i ! j = (if int i = y \<and> x \<le> int j \<and> nat (int j - x) < length cs
                            \<and> cs ! nat (int j - x) \<noteq> 0 then 1 else g ! i ! j))"
  using assms
proof (induction cs arbitrary: g x)
  case Nil
  then show ?case by simp
next
  case (Cons c cs)
  have tl: "\<forall>col<length cs. cs ! col \<noteq> 0 \<longrightarrow>
           0 \<le> x + 1 + int col \<and> x + 1 + int col < int BOARD_WIDTH \<and> y < int BOARD_HEIGHT"
  proof (intro allI impI)
    fix col assume "col < length cs" "cs ! col \<noteq> 0"
    then show "0 \<le> x + 1 + int col \<and> x + 1 + int col < int BOARD_WIDTH \<and> y < int BOARD_HEIGHT"
      using Cons.prems(2) [rule_format, of "Suc col"] by (simp add: ac_simps)
  qed
  have idx: "(x \<le> int j \<and> nat (int j - x) < length (c # cs) \<and> (c # cs) ! nat (int j - x) \<noteq> 0)
      = ((int j = x \<and> c \<noteq> 0) \<or> (x + 1 \<le> int j \<and> nat (int j - (x + 1)) < length cs
            \<and> cs ! nat (int j - (x + 1)) \<noteq> 0))" for j
  proof (cases "int j = x")
    case True
    then show ?thesis by simp
  next
    case False
    show ?thesis
    proof (cases "x \<le> int j")
      case True
      then have "nat (int j - x) = Suc (nat (int j - (x + 1)))" using False by simp
      then show ?thesis using True False by simp
    next
      case False
      then show ?thesis by simp
    qed
  qed
  show ?case
  proof (cases "c \<noteq> 0 \<and> y \<ge> 0")
    case True
    have b: "0 \<le> x" "x < int BOARD_WIDTH" "y < int BOARD_HEIGHT"
      using Cons.prems(2) [rule_format, of 0] True by simp_all
    obtain g1 where g1: "setCell g y x 1 = Inr g1" "is_grid g1"
      "\<forall>i<BOARD_HEIGHT. \<forall>j<BOARD_WIDTH. g1 ! i ! j = (if int i = y \<and> int j = x then 1 else g ! i ! j)"
      using setCell_grid [OF Cons.prems(1) _ b(3) b(1) b(2), of 1] True by blast
    obtain g' where g': "placeCols g1 cs (x + 1) y = Inr g'" "is_grid g'"
      "\<forall>i<BOARD_HEIGHT. \<forall>j<BOARD_WIDTH.
           g' ! i ! j = (if int i = y \<and> x + 1 \<le> int j \<and> nat (int j - (x + 1)) < length cs
                            \<and> cs ! nat (int j - (x + 1)) \<noteq> 0 then 1 else g1 ! i ! j)"
      using Cons.IH [OF g1(2) tl] by blast
    have "placeCols g (c # cs) x y = Inr g'" using True g1(1) g'(1) by simp
    moreover have "\<forall>i<BOARD_HEIGHT. \<forall>j<BOARD_WIDTH.
           g' ! i ! j = (if int i = y \<and> x \<le> int j \<and> nat (int j - x) < length (c # cs)
                            \<and> (c # cs) ! nat (int j - x) \<noteq> 0 then 1 else g ! i ! j)"
      unfolding idx using g'(3) g1(3) True by auto
    ultimately show ?thesis using g'(2) by blast
  next
    case False
    obtain g' where g': "placeCols g cs (x + 1) y = Inr g'" "is_grid g'"
      "\<forall>i<BOARD_HEIGHT. \<forall>j<BOARD_WIDTH.
           g' ! i ! j = (if int i = y \<and> x + 1 \<le> int j \<and> nat (int j - (x + 1)) < length cs
                            \<and> cs ! nat (int j - (x + 1)) \<noteq> 0 then 1 else g ! i ! j)"
      using Cons.IH [OF Cons.prems(1) tl] by blast
    have "placeCols g (c # cs) x y = Inr g'" using False g'(1) by auto
    moreover have "\<forall>i<BOARD_HEIGHT. \<forall>j<BOARD_WIDTH.
           g' ! i ! j = (if int i = y \<and> x \<le> int j \<and> nat (int j - x) < length (c # cs)
                            \<and> (c # cs) ! nat (int j - x) \<noteq> 0 then 1 else g ! i ! j)"
      unfolding idx using g'(3) False by auto
    ultimately show ?thesis using g'(2) by blast
  qed
qed

lemma covers_Nil: "\<not> covers [] x y i j"
  by (simp add: covers_def occupied_def)

lemma covers_Cons:
  "covers (r # rs) x y i j =
     (if int i = y then x \<le> int j \<and> nat (int j - x) < length r \<and> r ! nat (int j - x) \<noteq> 0
      else covers rs x (y + 1) i j)"
proof (cases "int i = y")
  case True
  then show ?thesis by (simp add: covers_def occupied_def)
next
  case False
  show ?thesis
  proof (cases "y \<le> int i")
    case True
    then have "nat (int i - y) = Suc (nat (int i - (y + 1)))" using False by simp
    then show ?thesis using True False by (simp add: covers_def occupied_def)
  next
    case False
    then show ?thesis by (simp add: covers_def)
  qed
qed

lemma placeRows_grid:
  assumes "is_grid g"
    and "\<forall>row col. occupied rs row col \<longrightarrow>
           0 \<le> x + int col \<and> x + int col < int BOARD_WIDTH \<and> y + int row < int BOARD_HEIGHT"
  shows "\<exists>g'. placeRows g rs x y = Inr g' \<and> is_grid g'
     \<and> (\<forall>i<BOARD_HEIGHT. \<forall>j<BOARD_WIDTH.
           g' ! i ! j = (if covers rs x y i j then 1 else g ! i ! j))"
  using assms
proof (induction rs arbitrary: g y)
  case Nil
  then show ?case by (simp add: covers_Nil)
next
  case (Cons r rs)
  have hd: "\<forall>col<length r. r ! col \<noteq> 0 \<longrightarrow>
           0 \<le> x + int col \<and> x + int col < int BOARD_WIDTH \<and> y < int BOARD_HEIGHT"
  proof (intro allI impI)
    fix col assume "col < length r" "r ! col \<noteq> 0"
    then have "occupied (r # rs) 0 col" by (simp add: occupied_def)
    then show "0 \<le> x + int col \<and> x + int col < int BOARD_WIDTH \<and> y < int BOARD_HEIGHT"
      using Cons.prems(2) [rule_format, of 0 col] by simp
  qed
  have tl: "\<forall>row col. occupied rs row col \<longrightarrow>
           0 \<le> x + int col \<and> x + int col < int BOARD_WIDTH \<and> y + 1 + int row < int BOARD_HEIGHT"
  proof (intro allI impI)
    fix row col assume "occupied rs row col"
    then have "occupied (r # rs) (Suc row) col" by (simp add: occupied_def)
    then show "0 \<le> x + int col \<and> x + int col < int BOARD_WIDTH \<and> y + 1 + int row < int BOARD_HEIGHT"
      using Cons.prems(2) [rule_format, of "Suc row" col] by (simp add: ac_simps)
  qed
  obtain g1 where g1: "placeCols g r x y = Inr g1" "is_grid g1"
    "\<forall>i<BOARD_HEIGHT. \<forall>j<BOARD_WIDTH.
       g1 ! i ! j = (if int i = y \<and> x \<le> int j \<and> nat (int j - x) < length r
                        \<and> r ! nat (int j - x) \<noteq> 0 then 1 else g ! i ! j)"
    using placeCols_grid [OF Cons.prems(1) hd] by blast
  obtain g' where g': "placeRows g1 rs x (y + 1) = Inr g'" "is_grid g'"
    "\<forall>i<BOARD_HEIGHT. \<forall>j<BOARD_WIDTH.
       g' ! i ! j = (if covers rs x (y + 1) i j then 1 else g1 ! i ! j)"
    using Cons.IH [OF g1(2) tl] by blast
  have above: "\<forall>i j. int i = y \<longrightarrow> \<not> covers rs x (y + 1) i j"
    by (simp add: covers_def)
  have "placeRows g (r # rs) x y = Inr g'" using g1(1) g'(1) by simp
  moreover have "\<forall>i<BOARD_HEIGHT. \<forall>j<BOARD_WIDTH.
       g' ! i ! j = (if covers (r # rs) x y i j then 1 else g ! i ! j)"
    unfolding covers_Cons using g'(3) g1(3) above by auto
  ultimately show ?case using g'(2) by blast
qed

lemma is_board_cells:
  "is_board g \<longleftrightarrow> is_grid g \<and> (\<forall>i<BOARD_HEIGHT. \<forall>j<BOARD_WIDTH. g ! i ! j = 0 \<or> g ! i ! j = 1)"
proof (cases "is_grid g")
  case True
  then have len: "length g = BOARD_HEIGHT" and rows: "\<forall>i<BOARD_HEIGHT. length (g ! i) = BOARD_WIDTH"
    by (simp_all add: is_grid_def list_all_length)
  have "cells01 g \<longleftrightarrow> (\<forall>i<BOARD_HEIGHT. \<forall>j<BOARD_WIDTH. g ! i ! j = 0 \<or> g ! i ! j = 1)"
    unfolding cells01_def list_all_length len using rows by auto
  then show ?thesis using True by (simp add: is_board_def)
next
  case False
  then show ?thesis by (simp add: is_board_def)
qed

lemma covers_occupied:
  assumes "covers p x y i j"
  shows "occupied p (nat (int i - y)) (nat (int j - x))
     \<and> y + int (nat (int i - y)) = int i \<and> x + int (nat (int j - x)) = int j"
  using assms by (simp add: covers_def)

lemma place_board:
  assumes "is_board b"
    and "\<forall>row col. occupied p row col \<longrightarrow>
           0 \<le> x + int col \<and> x + int col < int BOARD_WIDTH \<and> y + int row < int BOARD_HEIGHT"
  shows "\<exists>b'. place b p x y = Inr b' \<and> is_board b'
     \<and> (\<forall>i<BOARD_HEIGHT. \<forall>j<BOARD_WIDTH.
           b' ! i ! j = (if covers p x y i j then 1 else b ! i ! j))"
proof -
  have g: "is_grid b" and c: "\<forall>i<BOARD_HEIGHT. \<forall>j<BOARD_WIDTH. b ! i ! j = 0 \<or> b ! i ! j = 1"
    using assms(1) is_board_cells [of b] by simp_all
  obtain b' where b': "placeRows b p x y = Inr b'" "is_grid b'"
    "\<forall>i<BOARD_HEIGHT. \<forall>j<BOARD_WIDTH. b' ! i ! j = (if covers p x y i j then 1 else b ! i ! j)"
    using placeRows_grid [OF g assms(2)] by blast
  have "\<forall>i<BOARD_HEIGHT. \<forall>j<BOARD_WIDTH. b' ! i ! j = 0 \<or> b' ! i ! j = 1"
    using b'(3) c by simp
  then have "is_board b'" using b'(2) is_board_cells [of b'] by simp
  then show ?thesis using b'(1,3) by (auto simp: place_def)
qed

lemma place_legal:
  assumes "is_board b" "canMove b piece x y = Inr True"
  shows "\<exists>b'. place b piece x y = Inr b' \<and> is_board b'
     \<and> (\<forall>i<BOARD_HEIGHT. \<forall>j<BOARD_WIDTH.
          (covers piece x y i j \<longrightarrow> b ! i ! j = 0 \<and> b' ! i ! j = 1)
          \<and> (\<not> covers piece x y i j \<longrightarrow> b' ! i ! j = b ! i ! j))"
proof -
  have legal: "\<forall>row col. occupied piece row col \<longrightarrow> cellLegal b (x + int col) (y + int row)"
    using canMove_eq [OF assms(1), of piece x y] assms(2) by simp
  then have bounds: "\<forall>row col. occupied piece row col \<longrightarrow>
           0 \<le> x + int col \<and> x + int col < int BOARD_WIDTH \<and> y + int row < int BOARD_HEIGHT"
    by (simp add: cellLegal_def)
  obtain b' where b': "place b piece x y = Inr b'" "is_board b'"
    "\<forall>i<BOARD_HEIGHT. \<forall>j<BOARD_WIDTH. b' ! i ! j = (if covers piece x y i j then 1 else b ! i ! j)"
    using place_board [OF assms(1) bounds] by blast
  have c: "\<forall>i<BOARD_HEIGHT. \<forall>j<BOARD_WIDTH. b ! i ! j = 0 \<or> b ! i ! j = 1"
    using assms(1) is_board_cells [of b] by simp
  have free: "b ! i ! j = 0" if "i < BOARD_HEIGHT" "j < BOARD_WIDTH" "covers piece x y i j" for i j
  proof -
    have "cellLegal b (int j) (int i)"
      using legal [rule_format, of "nat (int i - y)" "nat (int j - x)"] covers_occupied [OF that(3)]
      by simp
    then have "b ! i ! j \<noteq> 1" by (simp add: cellLegal_def)
    then show ?thesis using c that(1,2) by auto
  qed
  show ?thesis using b' free by auto
qed

text \<open>
  Claim C4. On every board, for every shape and offset at which \<open>canMove\<close> is true,
  committing the shape returns a board that differs from the old one exactly in the
  cells under the shape's occupied cells; each of them was empty before and is settled
  after, so the piece overlaps no cell that was settled. Occupied cells of the shape
  above row 0 are under no board cell and are skipped.
\<close>

theorem place_never_overlaps:
  assumes "is_board b" "canMove b piece x y = Inr True"
  shows "\<exists>b'. place b piece x y = Inr b' \<and> is_board b'
     \<and> (\<forall>i<BOARD_HEIGHT. \<forall>j<BOARD_WIDTH.
          (covers piece x y i j \<longrightarrow> b ! i ! j = 0 \<and> b' ! i ! j = 1)
          \<and> (\<not> covers piece x y i j \<longrightarrow> b' ! i ! j = b ! i ! j))"
  using assms by (rule place_legal)

theorem place_never_overlaps_witness:
  "is_board (emptyBoard[19 := [1,1,1,1,0,0,1,1,1,1]])
   \<and> canMove (emptyBoard[19 := [1,1,1,1,0,0,1,1,1,1]]) (TETROMINOS K_O) 4 18 = Inr True
   \<and> place (emptyBoard[19 := [1,1,1,1,0,0,1,1,1,1]]) (TETROMINOS K_O) 4 18
       = Inr (emptyBoard[18 := [0,0,0,0,1,1,0,0,0,0], 19 := replicate 10 1])
   \<and> covers (TETROMINOS K_O) 4 18 19 5
   \<and> emptyBoard[19 := [1,1,1,1,0,0,1,1,1,1]] ! 19 ! 5 = 0
   \<and> canMove emptyBoard (TETROMINOS K_O) 4 (- 1) = Inr True
   \<and> place emptyBoard (TETROMINOS K_O) 4 (- 1) = Inr (emptyBoard[0 := [0,0,0,0,1,1,0,0,0,0]])"
proof -
  let ?b = "emptyBoard[19 := [1,1,1,1,0,0,1,1,1,1]]"
  have b: "is_board ?b" by code_simp
  have m: "canMove ?b (TETROMINOS K_O) 4 18 = Inr True" by code_simp
  have p: "place ?b (TETROMINOS K_O) 4 18
      = Inr (emptyBoard[18 := [0,0,0,0,1,1,0,0,0,0], 19 := replicate 10 1])"
    by code_simp
  have c: "covers (TETROMINOS K_O) 4 18 19 5" by code_simp
  have i: "(19::nat) < BOARD_HEIGHT" "(5::nat) < BOARD_WIDTH"
    by (simp_all add: BOARD_HEIGHT_def BOARD_WIDTH_def)
  obtain b' where "place ?b (TETROMINOS K_O) 4 18 = Inr b'"
    and cells: "\<forall>i<BOARD_HEIGHT. \<forall>j<BOARD_WIDTH.
          (covers (TETROMINOS K_O) 4 18 i j \<longrightarrow> ?b ! i ! j = 0 \<and> b' ! i ! j = 1)
          \<and> (\<not> covers (TETROMINOS K_O) 4 18 i j \<longrightarrow> b' ! i ! j = ?b ! i ! j)"
    using place_never_overlaps [OF b m] by blast
  have z: "?b ! 19 ! 5 = 0" using cells i c by blast
  have m2: "canMove emptyBoard (TETROMINOS K_O) 4 (- 1) = Inr True" by code_simp
  have p2: "place emptyBoard (TETROMINOS K_O) 4 (- 1) = Inr (emptyBoard[0 := [0,0,0,0,1,1,0,0,0,0]])"
    by code_simp
  show ?thesis using b m p c z m2 p2 by simp
qed

section \<open>Line clearing\<close>

lemma not_fullRow_emptyRow: "\<not> fullRow emptyRow"
  by (simp add: fullRow_def emptyRow_def BOARD_WIDTH_def list_all_iff)

lemma clearLines_loop:
  assumes "- 1 \<le> row" "row < int (length b)"
    and "list_all (\<lambda>r. \<not> fullRow r) (drop (nat (row + 1)) b)"
  shows "clearLines row b n =
     Inr (replicate (length (filter fullRow b)) emptyRow @ filter (\<lambda>r. \<not> fullRow r) b,
          n + length (filter fullRow b))"
  using assms
proof (induction row b n rule: clearLines.induct)
  case (1 row b n)
  show ?case
  proof (cases "row < 0")
    case True
    then have "row = - 1" using "1.prems"(1) by simp
    then have all: "list_all (\<lambda>r. \<not> fullRow r) b" using "1.prems"(3) by simp
    then have "filter fullRow b = []" "filter (\<lambda>r. \<not> fullRow r) b = b"
      by (simp_all add: list_all_iff)
    then show ?thesis using True by (subst clearLines.simps) simp
  next
    case nonneg: False
    have i: "nat row < length b" using nonneg "1.prems"(2) by simp
    have notle: "\<not> int (length b) \<le> row" using "1.prems"(2) by simp
    have split: "b = take (nat row) b @ b ! nat row # drop (Suc (nat row)) b"
      using i by (rule id_take_nth_drop)
    have up: "list_all (\<lambda>r. \<not> fullRow r) (drop (Suc (nat row)) b)"
      using "1.prems"(3) nonneg by (simp add: nat_add_distrib)
    show ?thesis
    proof (cases "fullRow (b ! nat row)")
      case True
      let ?b' = "emptyRow # (take (nat row) b @ drop (Suc (nat row)) b)"
      have len: "length ?b' = length b" using i by simp
      have d: "drop (nat (row + 1)) ?b' = drop (Suc (nat row)) b"
        using i nonneg by (simp add: nat_add_distrib)
      have IH: "clearLines row ?b' (n + 1) =
          Inr (replicate (length (filter fullRow ?b')) emptyRow @ filter (\<lambda>r. \<not> fullRow r) ?b',
               n + 1 + length (filter fullRow ?b'))"
        using "1.IH"(1) [OF nonneg notle True] "1.prems"(1) "1.prems"(2) len d up by simp
      have cnt: "length (filter fullRow b) = Suc (length (filter fullRow ?b'))"
        using True not_fullRow_emptyRow by (subst split) simp
      have keep: "filter (\<lambda>r. \<not> fullRow r) ?b' = emptyRow # filter (\<lambda>r. \<not> fullRow r) b"
        using True not_fullRow_emptyRow by (subst (3) split) simp
      have "clearLines row b n = clearLines row ?b' (n + 1)"
        using nonneg notle True by (subst clearLines.simps) simp
      then show ?thesis using IH cnt keep by (simp add: replicate_app_Cons_same)
    next
      case False
      have d: "drop (nat (row - 1 + 1)) b = b ! nat row # drop (Suc (nat row)) b"
        using i by (simp add: Cons_nth_drop_Suc)
      have IH: "clearLines (row - 1) b n =
          Inr (replicate (length (filter fullRow b)) emptyRow @ filter (\<lambda>r. \<not> fullRow r) b,
               n + length (filter fullRow b))"
        using "1.IH"(2) [OF nonneg notle False] nonneg "1.prems"(2) d up False by simp
      have "clearLines row b n = clearLines (row - 1) b n"
        using nonneg notle False by (subst clearLines.simps) simp
      then show ?thesis using IH by simp
    qed
  qed
qed

lemma clearFullRows_eq:
  assumes "length b = BOARD_HEIGHT"
  shows "clearFullRows b =
     Inr (replicate (length (filter fullRow b)) emptyRow @ filter (\<lambda>r. \<not> fullRow r) b,
          length (filter fullRow b))"
  unfolding clearFullRows_def
  using clearLines_loop [of "int BOARD_HEIGHT - 1" b 0] assms
  by (simp add: BOARD_HEIGHT_def)

lemma is_grid_clear:
  assumes "is_grid b"
  shows "is_grid (replicate (length (filter fullRow b)) emptyRow @ filter (\<lambda>r. \<not> fullRow r) b)"
proof -
  have "length (filter fullRow b) + length (filter (\<lambda>r. \<not> fullRow r) b) = length b"
    by (rule sum_length_filter_compl)
  then show ?thesis using assms
    by (auto simp: is_grid_def list_all_iff emptyRow_def)
qed

lemma one_full_row:
  assumes "r < length b" "fullRow (b ! r)" "\<forall>i<length b. i \<noteq> r \<longrightarrow> \<not> fullRow (b ! i)"
  shows "filter fullRow b = [b ! r] \<and> filter (\<lambda>r. \<not> fullRow r) b = take r b @ drop (Suc r) b"
proof -
  have split: "b = take r b @ b ! r # drop (Suc r) b"
    using assms(1) by (rule id_take_nth_drop)
  have lo: "list_all (\<lambda>r. \<not> fullRow r) (take r b)"
    using assms(1,3) by (simp add: list_all_length)
  have hi: "list_all (\<lambda>r. \<not> fullRow r) (drop (Suc r) b)"
    using assms(1,3) by (simp add: list_all_length)
  have f1: "filter fullRow (take r b) = []" "filter (\<lambda>r. \<not> fullRow r) (take r b) = take r b"
    using lo by (simp_all add: list_all_iff)
  have f2: "filter fullRow (drop (Suc r) b) = []"
    "filter (\<lambda>r. \<not> fullRow r) (drop (Suc r) b) = drop (Suc r) b"
    using hi by (simp_all add: list_all_iff)
  have "filter fullRow b = [b ! r]"
    using assms(2) f1 f2 by (subst split) simp
  moreover have "filter (\<lambda>r. \<not> fullRow r) b = take r b @ drop (Suc r) b"
    using assms(2) f1 f2 by (subst split) simp
  ultimately show ?thesis by simp
qed

text \<open>
  Claim C5. On every 20 by 10 grid the line-clearing loop returns; it returns the number
  of full rows; the new grid is that many empty rows followed by the rows that were not
  full, in their order, and is again 20 by 10. With exactly one full row, at index \<open>r\<close>,
  it returns 1 and the grid is an empty row, the rows above \<open>r\<close> and the rows below \<open>r\<close>.
  With no full row it returns 0 and the grid as it was.
\<close>

theorem clearFullRows_spec:
  assumes "is_grid b"
  shows "clearFullRows b =
       Inr (replicate (length (filter fullRow b)) emptyRow @ filter (\<lambda>r. \<not> fullRow r) b,
            length (filter fullRow b))
     \<and> is_grid (replicate (length (filter fullRow b)) emptyRow @ filter (\<lambda>r. \<not> fullRow r) b)
     \<and> (\<forall>r<length b. fullRow (b ! r) \<and> (\<forall>i<length b. i \<noteq> r \<longrightarrow> \<not> fullRow (b ! i)) \<longrightarrow>
           clearFullRows b = Inr (emptyRow # take r b @ drop (Suc r) b, 1))
     \<and> (list_all (\<lambda>r. \<not> fullRow r) b \<longrightarrow> clearFullRows b = Inr (b, 0))"
proof -
  have len: "length b = BOARD_HEIGHT" using assms by (simp add: is_grid_def)
  note eq = clearFullRows_eq [OF len]
  have one: "\<forall>r<length b. fullRow (b ! r) \<and> (\<forall>i<length b. i \<noteq> r \<longrightarrow> \<not> fullRow (b ! i)) \<longrightarrow>
           clearFullRows b = Inr (emptyRow # take r b @ drop (Suc r) b, 1)"
  proof (intro allI impI)
    fix r assume "r < length b"
      and "fullRow (b ! r) \<and> (\<forall>i<length b. i \<noteq> r \<longrightarrow> \<not> fullRow (b ! i))"
    then have "filter fullRow b = [b ! r] \<and> filter (\<lambda>r. \<not> fullRow r) b = take r b @ drop (Suc r) b"
      using one_full_row [of r b] by simp
    then show "clearFullRows b = Inr (emptyRow # take r b @ drop (Suc r) b, 1)"
      using eq by simp
  qed
  have none: "list_all (\<lambda>r. \<not> fullRow r) b \<longrightarrow> clearFullRows b = Inr (b, 0)"
  proof
    assume "list_all (\<lambda>r. \<not> fullRow r) b"
    then have "filter fullRow b = []" "filter (\<lambda>r. \<not> fullRow r) b = b"
      by (simp_all add: list_all_iff)
    then show "clearFullRows b = Inr (b, 0)" using eq by simp
  qed
  show ?thesis by (intro conjI eq is_grid_clear [OF assms] one none)
qed

theorem clearFullRows_spec_witness:
  "is_grid (emptyBoard[18 := [1,0,0,0,0,0,0,0,1,1], 19 := replicate 10 1])
   \<and> fullRow (emptyBoard[18 := [1,0,0,0,0,0,0,0,1,1], 19 := replicate 10 1] ! 19)
   \<and> clearFullRows (emptyBoard[18 := [1,0,0,0,0,0,0,0,1,1], 19 := replicate 10 1])
       = Inr (emptyBoard[19 := [1,0,0,0,0,0,0,0,1,1]], 1)
   \<and> is_grid (emptyBoard[19 := [1,0,0,0,0,0,0,0,1,1]])"
proof -
  let ?b = "emptyBoard[18 := [1,0,0,0,0,0,0,0,1,1], 19 := replicate 10 1]"
  have g: "is_grid ?b" by code_simp
  have r: "fullRow (?b ! 19)" by code_simp
  have k: "length (filter fullRow ?b) = 1" by code_simp
  have f: "replicate 1 emptyRow @ filter (\<lambda>r. \<not> fullRow r) ?b
      = emptyBoard[19 := [1,0,0,0,0,0,0,0,1,1]]"
    by code_simp
  show ?thesis using clearFullRows_spec [OF g] g r unfolding k f by simp
qed

section \<open>Rotation\<close>

lemma rectangular_TETROMINOS: "rectangular (TETROMINOS k)"
  by (cases k) (simp_all add: rectangular_def)

lemma rotateClockwise_rect:
  assumes "rectangular p"
  shows "\<exists>q. rotateClockwise p = Inr q \<and> rectangular q
       \<and> length q = length (hd p) \<and> length (hd q) = length p
       \<and> (\<forall>i<length (hd p). \<forall>j<length p. q ! i ! j = p ! (length p - 1 - j) ! i)
       \<and> q = map rev (transpose p)"
proof -
  obtain r0 rest where p: "p = r0 # rest" using assms by (cases p) (auto simp: rectangular_def)
  have w: "r0 \<noteq> []" and rows: "\<forall>r\<in>set p. length r = length r0"
    using assms p by (auto simp: rectangular_def list_all_iff)
  let ?q = "map (\<lambda>i. rev (map (\<lambda>row. row ! i) p)) [0..<length r0]"
  have eq: "rotateClockwise p = Inr ?q"
    using rows p by (simp add: rotateClockwise_def list_all_iff)
  have lq: "length ?q = length r0" by simp
  have w0: "0 < length r0" using w by simp
  have hq: "hd ?q = ?q ! 0" using w0 by (simp add: hd_conv_nth)
  have rowlen: "\<forall>r\<in>set ?q. length r = length p" by auto
  have q0: "?q ! 0 = rev (map (\<lambda>row. row ! 0) p)" using w0 by simp
  have qne: "?q \<noteq> []" using w0 by simp
  have hne: "hd ?q \<noteq> []" unfolding hq q0 using p by simp
  have hl: "length (hd ?q) = length p" unfolding hq q0 by simp
  have rq: "rectangular ?q"
    unfolding rectangular_def list_all_iff using qne hne hl rowlen by metis
  have nthq: "\<forall>i<length r0. \<forall>j<length p. ?q ! i ! j = p ! (length p - 1 - j) ! i"
    by (simp add: rev_nth)
  have "transpose p = map (\<lambda>i. map (\<lambda>j. p ! j ! i) [0..<length p]) [0..<length r0]"
  proof (rule transpose_rectangle)
    show "p = [] \<Longrightarrow> length r0 = 0" using p by simp
    show "\<And>i. i < length p \<Longrightarrow> length (p ! i) = length r0"
      using rows by simp
  qed
  moreover have "\<And>i. map (\<lambda>row. row ! i) p = map (\<lambda>j. p ! j ! i) [0..<length p]"
    by (rule nth_equalityI) simp_all
  ultimately have tr: "?q = map rev (transpose p)"
    by simp
  have hp: "hd p = r0" using p by simp
  show ?thesis unfolding hp using eq rq lq nthq tr hl by (intro exI [of _ ?q]) simp
qed
lemma rectangular_rows:
  assumes "rectangular p" "i < length p"
  shows "length (p ! i) = length (hd p)"
  using assms by (simp add: rectangular_def list_all_length)

lemma rotateTimes4:
  assumes "rectangular p"
  shows "rotateTimes 4 p = Inr p"
proof -
  define h where "h = length p"
  define w where "w = length (hd p)"
  obtain q1 where q1: "rotateClockwise p = Inr q1" "rectangular q1"
      "length q1 = w" "length (hd q1) = h"
      "\<forall>i<w. \<forall>j<h. q1 ! i ! j = p ! (h - 1 - j) ! i"
    using rotateClockwise_rect [OF assms] unfolding h_def w_def by blast
  obtain q2 where q2: "rotateClockwise q1 = Inr q2" "rectangular q2"
      "length q2 = h" "length (hd q2) = w"
      "\<forall>i<h. \<forall>j<w. q2 ! i ! j = q1 ! (w - 1 - j) ! i"
    using rotateClockwise_rect [OF q1(2)] unfolding q1(3) q1(4) by blast
  obtain q3 where q3: "rotateClockwise q2 = Inr q3" "rectangular q3"
      "length q3 = w" "length (hd q3) = h"
      "\<forall>i<w. \<forall>j<h. q3 ! i ! j = q2 ! (h - 1 - j) ! i"
    using rotateClockwise_rect [OF q2(2)] unfolding q2(3) q2(4) by blast
  obtain q4 where q4: "rotateClockwise q3 = Inr q4" "rectangular q4"
      "length q4 = h" "length (hd q4) = w"
      "\<forall>i<h. \<forall>j<w. q4 ! i ! j = q3 ! (w - 1 - j) ! i"
    using rotateClockwise_rect [OF q3(2)] unfolding q3(3) q3(4) by blast
  have cell: "q4 ! i ! j = p ! i ! j" if "i < h" "j < w" for i j
  proof -
    have a: "w - 1 - j < w" "h - 1 - i < h" using that by simp_all
    have "q4 ! i ! j = q3 ! (w - 1 - j) ! i" using q4(5) that by simp
    also have "\<dots> = q2 ! (h - 1 - i) ! (w - 1 - j)" using q3(5) a(1) that(1) by simp
    also have "\<dots> = q1 ! (w - 1 - (w - 1 - j)) ! (h - 1 - i)" using q2(5) a by simp
    also have "\<dots> = q1 ! j ! (h - 1 - i)" using that(2) by simp
    also have "\<dots> = p ! (h - 1 - (h - 1 - i)) ! j" using q1(5) a(2) that(2) by simp
    also have "\<dots> = p ! i ! j" using that(1) by simp
    finally show ?thesis .
  qed
  have row: "q4 ! i = p ! i" if "i < h" for i
  proof (rule nth_equalityI)
    show "length (q4 ! i) = length (p ! i)"
      using rectangular_rows [OF q4(2), of i] rectangular_rows [OF assms, of i] that q4(3,4)
      by (simp add: h_def w_def)
    show "q4 ! i ! j = p ! i ! j" if "j < length (q4 ! i)" for j
      using cell [of i j] \<open>i < h\<close> that rectangular_rows [OF q4(2), of i] q4(3,4) by simp
  qed
  have "q4 = p"
    by (rule nth_equalityI) (simp_all add: q4(3) h_def [symmetric] row)
  then show ?thesis using q1(1) q2(1) q3(1) q4(1) by (simp add: eval_nat_numeral)
qed

lemma rotateTimes_rect:
  assumes "rectangular p"
  shows "\<exists>q. rotateTimes n p = Inr q \<and> rectangular q"
  using assms
proof (induction n arbitrary: p)
  case 0
  then show ?case by simp
next
  case (Suc n)
  obtain q where "rotateClockwise p = Inr q" "rectangular q"
    using rotateClockwise_rect [OF Suc.prems] by blast
  then show ?case using Suc.IH [of q] by simp
qed

text \<open>
  Claim C7. Every shape reached from one of the seven canonical shapes by any number of
  rotations (none included) is rotated without error; four more rotations give that
  shape back, cell for cell; and one rotation of it is its transpose with every row
  reversed. The rotation is a function of its argument: the shape it is given stays
  what it was.
\<close>

theorem rotate_four_times:
  "\<exists>q. rotateTimes n (TETROMINOS k) = Inr q
       \<and> rotateTimes 4 q = Inr q
       \<and> rotateClockwise q = Inr (map rev (transpose q))"
proof -
  obtain q where q: "rotateTimes n (TETROMINOS k) = Inr q" "rectangular q"
    using rotateTimes_rect [OF rectangular_TETROMINOS] by blast
  have "rotateClockwise q = Inr (map rev (transpose q))"
    using rotateClockwise_rect [OF q(2)] by auto
  then show ?thesis using q(1) rotateTimes4 [OF q(2)] by simp
qed

theorem rotate_four_times_witness:
  "rotateTimes 1 (TETROMINOS K_T) = Inr [[1, 0], [1, 1], [1, 0]]
   \<and> rotateTimes 4 [[1, 0], [1, 1], [1, 0]] = Inr [[1, 0], [1, 1], [1, 0]]
   \<and> rotateClockwise [[1, 0], [1, 1], [1, 0]] = Inr [[1, 1, 1], [0, 1, 0]]"
proof -
  have r: "rotateTimes 1 (TETROMINOS K_T) = Inr [[1, 0], [1, 1], [1, 0]]" by code_simp
  have t: "map rev (transpose [[1, 0], [1, 1], [1, 0 :: int]]) = [[1, 1, 1], [0, 1, 0]]" by code_simp
  show ?thesis using rotate_four_times [of 1 K_T] unfolding r t by simp
qed

section \<open>The lock\<close>

lemma emptyBoard_nth:
  assumes "i < BOARD_HEIGHT" "j < BOARD_WIDTH"
  shows "emptyBoard ! i ! j = 0"
  using assms by (simp add: emptyBoard_def emptyRow_def)

lemma canMove_returns:
  assumes "is_board b"
  shows "\<exists>v. canMove b p x y = Inr v"
  using canMove_eq [OF assms] by blast

lemma inBounds_iff:
  "inBounds p x y \<longleftrightarrow>
     (\<forall>row col. occupied p row col \<longrightarrow>
        0 \<le> x + int col \<and> x + int col < int BOARD_WIDTH \<and> y + int row < int BOARD_HEIGHT)"
proof -
  have c: "cellLegal emptyBoard bx by
      \<longleftrightarrow> 0 \<le> bx \<and> bx < int BOARD_WIDTH \<and> by < int BOARD_HEIGHT" for bx "by"
  proof (cases "0 \<le> bx \<and> bx < int BOARD_WIDTH \<and> by < int BOARD_HEIGHT \<and> 0 \<le> by")
    case True
    then have "emptyBoard ! nat by ! nat bx = 0" by (intro emptyBoard_nth) (simp_all add: nat_less_iff)
    then show ?thesis using True by (simp add: cellLegal_def)
  next
    case False
    then show ?thesis by (auto simp: cellLegal_def)
  qed
  show ?thesis
    unfolding inBounds_def canMove_eq [OF is_board_emptyBoard] c by simp
qed

lemma is_board_clear:
  assumes "is_board b"
  shows "is_board (replicate n emptyRow @ filter (\<lambda>r. \<not> fullRow r) b)
           \<longleftrightarrow> is_grid (replicate n emptyRow @ filter (\<lambda>r. \<not> fullRow r) b)"
  using assms by (auto simp: is_board_def cells01_def list_all_iff emptyRow_def)

lemma clearFullRows_board:
  assumes "is_board b"
  shows "\<exists>newBoard. clearFullRows b = Inr (newBoard, length (filter fullRow b)) \<and> is_board newBoard
     \<and> newBoard = replicate (length (filter fullRow b)) emptyRow @ filter (\<lambda>r. \<not> fullRow r) b"
proof -
  have g: "is_grid b" using assms by (simp add: is_board_def)
  then have len: "length b = BOARD_HEIGHT" by (simp add: is_grid_def)
  show ?thesis
    using clearFullRows_eq [OF len] is_grid_clear [OF g] is_board_clear [OF assms] by simp
qed


lemma placePieceC_lock:
  assumes "is_board (board c)" "currentPiece c = Some p"
    and "inBounds p (fst (piecePosition c)) (snd (piecePosition c))"
  shows "\<exists>placed newBoard v.
      place (board c) p (fst (piecePosition c)) (snd (piecePosition c)) = Inr placed
    \<and> is_board placed
    \<and> clearFullRows placed = Inr (newBoard, length (filter fullRow placed))
    \<and> canMove (board c) (TETROMINOS k) (startX (TETROMINOS k)) 0 = Inr v
    \<and> placePieceC k c =
        Inr ((if 0 < length (filter fullRow placed)
              then [setScore_add (int (length (filter fullRow placed)) * 100)] else [])
             @ [setBoard newBoard]
             @ (if v then [setCurrentPiece (TETROMINOS k),
                           setPiecePosition (startX (TETROMINOS k), 0)]
                else [setGameOver True]),
             send c (if v then game_state newBoard (score c) else game_over (score c)))"
proof -
  obtain placed where placed:
    "place (board c) p (fst (piecePosition c)) (snd (piecePosition c)) = Inr placed"
    "is_board placed"
    using place_board [OF assms(1) assms(3) [unfolded inBounds_iff]] by blast
  obtain newBoard where nb:
    "clearFullRows placed = Inr (newBoard, length (filter fullRow placed))"
    using clearFullRows_board [OF placed(2)] by blast
  obtain v where v: "canMove (board c) (TETROMINOS k) (startX (TETROMINOS k)) 0 = Inr v"
    using canMove_returns [OF assms(1)] by blast
  have "placePieceC k c =
        Inr ((if 0 < length (filter fullRow placed)
              then [setScore_add (int (length (filter fullRow placed)) * 100)] else [])
             @ [setBoard newBoard]
             @ (if v then [setCurrentPiece (TETROMINOS k),
                           setPiecePosition (startX (TETROMINOS k), 0)]
                else [setGameOver True]),
             send c (if v then game_state newBoard (score c) else game_over (score c)))"
    using assms(2) placed(1) nb v by (simp add: placePieceC_def Let_def)
  then show ?thesis using placed nb v by blast
qed

lemma applyUpdates_append:
  "applyUpdates (us @ vs) s =
     (case applyUpdates us s of Inl e \<Rightarrow> Inl e | Inr s' \<Rightarrow> applyUpdates vs s')"
  by (induction us arbitrary: s) (auto split: sum.splits)

lemma applyUpdates_score_mono:
  assumes "raisesOnly us" "applyUpdates us s = Inr t"
  shows "score s \<le> score t"
  using assms
proof (induction us arbitrary: s)
  case Nil
  then show ?case by simp
next
  case (Cons u us)
  obtain s1 where s1: "applyUpdate u s = Inr s1" "applyUpdates us s1 = Inr t"
    using Cons.prems(2) by (auto split: sum.splits)
  have "score s \<le> score s1"
    using s1(1) Cons.prems(1)
    by (cases u) (auto simp: raisesOnly_def jsAdd_def split: sum.splits if_splits)
  moreover have "score s1 \<le> score t"
    using Cons.IH [OF _ s1(2)] Cons.prems(1) by (simp add: raisesOnly_def)
  ultimately show ?case by simp
qed

lemma placePieceC_raisesOnly:
  assumes "placePieceC k c = Inr (us, out)"
  shows "raisesOnly us"
  using assms
  by (auto simp: placePieceC_def raisesOnly_def Let_def
      split: option.splits sum.splits prod.splits if_splits)

lemma moveDownC_raisesOnly:
  assumes "moveDownC k c = Inr (us, out)"
  shows "raisesOnly us"
proof (cases "placePieceC k c = Inr (us, out)")
  case True
  then show ?thesis by (rule placePieceC_raisesOnly)
next
  case False
  then show ?thesis using assms
    by (auto simp: moveDownC_def raisesOnly_def Let_def
        split: option.splits sum.splits if_splits)
qed

lemma handleKeyPressC_raisesOnly:
  assumes "handleKeyPressC e k c = Inr (us, out)"
  shows "raisesOnly us"
proof (cases "moveDownC k c = Inr (us, out)")
  case True
  then show ?thesis by (rule moveDownC_raisesOnly)
next
  case False
  then show ?thesis using assms
    by (auto simp: handleKeyPressC_def moveLateralC_def rotatePieceC_def raisesOnly_def
        split: option.splits sum.splits if_splits key.splits)
qed

lemma commit_score_mono:
  assumes "commit r s = Inr (t, out)" "\<And>us out'. r = Inr (us, out') \<Longrightarrow> raisesOnly us"
  shows "score s \<le> score t"
proof -
  obtain us out' where r: "r = Inr (us, out')" "applyUpdates us s = Inr t"
    using assms(1) by (auto simp: commit_def split: sum.splits prod.splits)
  show ?thesis using applyUpdates_score_mono [OF assms(2) [OF r(1)] r(2)] .
qed

lemma fire_score_mono:
  assumes "\<forall>k. ev \<noteq> ClickStart k" "fire ev c s = Inr (t, out)"
  shows "score s \<le> score t"
proof (cases ev)
  case (ClickJoinRoom r)
  then show ?thesis using assms(2) by (auto simp: fire_def joinRoom_def split: if_splits)
next
  case (ClickStart k)
  then show ?thesis using assms(1) by simp
next
  case (KeyDown e k)
  then have "commit (handleKeyPressC e k (c\<lparr>ws := ws s\<rparr>)) s = Inr (t, out)"
    using assms(2) by (simp add: fire_def)
  then show ?thesis by (rule commit_score_mono) (rule handleKeyPressC_raisesOnly)
next
  case (Tick k)
  show ?thesis
  proof (cases "\<not> gameStarted c \<or> gameOver c")
    case True
    then show ?thesis using assms(2) Tick by (simp add: fire_def)
  next
    case False
    then have "commit (moveDownC k (c\<lparr>ws := ws s\<rparr>)) s = Inr (t, out)"
      using assms(2) Tick by (simp add: fire_def)
    then show ?thesis by (rule commit_score_mono) (rule moveDownC_raisesOnly)
  qed
next
  case WsOpen
  then show ?thesis using assms(2) by (auto simp: fire_def onopen_def split: if_splits)
next
  case WsClose
  then show ?thesis using assms(2) by (auto simp: fire_def onclose_def split: if_splits)
next
  case (WsMessage m)
  then show ?thesis using assms(2)
    by (cases m) (auto simp: fire_def onmessage_def split: if_splits)
qed

lemma fire_score_nonneg:
  assumes "0 \<le> score s" "fire ev c s = Inr (t, out)"
  shows "0 \<le> score t"
proof (cases "\<forall>k. ev \<noteq> ClickStart k")
  case True
  then show ?thesis using fire_score_mono [OF True assms(2)] assms(1) by simp
next
  case False
  then obtain k where "ev = ClickStart k" by blast
  then show ?thesis using assms
    by (auto simp: fire_def startGame_def Let_def split: if_splits)
qed

lemma placePieceC_score:
  assumes "currentPiece c = Some p"
    and "place (board c) p (fst (piecePosition c)) (snd (piecePosition c)) = Inr placed"
    and "clearFullRows placed = Inr (newBoard, n)"
    and "placePieceC k c = Inr (us, out)" "applyUpdates us s = Inr t"
  shows "score t = score s + 100 * int n"
proof -
  obtain v where v: "canMove (board c) (TETROMINOS k) (startX (TETROMINOS k)) 0 = Inr v"
    using assms(1-4) by (auto simp: placePieceC_def Let_def split: sum.splits)
  have us: "us = (if 0 < n then [setScore_add (int n * 100)] else []) @ [setBoard newBoard]
             @ (if v then [setCurrentPiece (TETROMINOS k),
                           setPiecePosition (startX (TETROMINOS k), 0)]
                else [setGameOver True])"
    using assms(1-4) v by (auto simp: placePieceC_def Let_def)
  show ?thesis
  proof (cases "0 < n")
    case True
    then obtain w where w: "jsAdd (score s) (int n * 100) = Inr w"
      using assms(5) unfolding us by (auto split: sum.splits)
    then have "w = score s + 100 * int n" by (auto simp: jsAdd_def split: if_splits)
    then show ?thesis using assms(5) True w unfolding us by (cases v) auto
  next
    case False
    then show ?thesis using assms(5) unfolding us by (cases v) auto
  qed
qed

lemma lock_exact:
  assumes "0 \<le> score s" "score s + 2000 \<le> 2 ^ 53" "n \<le> 20"
  shows "applyUpdates ((if 0 < n then [setScore_add (int n * 100)] else []) @ [setBoard b] @ rest) s
      = applyUpdates rest (s\<lparr>score := score s + 100 * int n, board := b\<rparr>)"
proof (cases "0 < n")
  case True
  have "int n * 100 \<le> 2000" using assms(3) by simp
  then have "jsAdd (score s) (int n * 100) = Inr (score s + 100 * int n)"
    using assms(1,2) by (simp add: jsAdd_def exactInt_def)
  then show ?thesis using True by simp
next
  case False
  then show ?thesis by simp
qed

text \<open>
  \<open>run\<close> is \<open>runStale\<close> with a render after every event.
\<close>

lemma run_spaced: "run evs s = runStale (spaced evs) s s"
proof (induction evs arbitrary: s)
  case Nil
  show ?case by (simp add: spaced_def)
next
  case (Cons ev evs)
  have sp: "spaced (ev # evs) = Handle ev # Rerender # spaced evs" by (simp add: spaced_def)
  show ?case unfolding sp using Cons.IH
    by (simp add: step_def split: sum.splits prod.splits)
qed

text \<open>
  Claim C6. A lock whose closure holds a board and a piece inside the walls returns. Its
  calls, applied to a current state whose score is at least 0 and at most \<open>2^53 - 2000\<close>,
  give the score plus 100 times the number of rows that were full after the piece was
  committed, which is the count the clearing loop returns; with no such row the score is
  unchanged. The closure need not be that of the current state. Whatever the closure, a
  lock that returns adds 100 times its own count to the score, no handler but the start
  of a new game lowers the score, and no handler makes it negative.
\<close>

theorem lock_score:
  assumes "is_board (board c)" "currentPiece c = Some p"
    and "inBounds p (fst (piecePosition c)) (snd (piecePosition c))"
    and "0 \<le> score s" "score s + 2000 \<le> 2 ^ 53"
  shows "\<exists>placed newBoard linesCleared us out s'.
      place (board c) p (fst (piecePosition c)) (snd (piecePosition c)) = Inr placed
    \<and> clearFullRows placed = Inr (newBoard, linesCleared)
    \<and> linesCleared = length (filter fullRow placed)
    \<and> placePieceC k c = Inr (us, out)
    \<and> applyUpdates us s = Inr s'
    \<and> score s' = score s + 100 * int linesCleared
    \<and> (linesCleared = 0 \<longrightarrow> score s' = score s)
    \<and> score s \<le> score s' \<and> 0 \<le> score s'
    \<and> (c = s \<longrightarrow> placePiece k s = Inr (s', out))
    \<and> (\<forall>c' p' placed' newBoard' n' us' out' t.
          currentPiece c' = Some p'
          \<and> place (board c') p' (fst (piecePosition c')) (snd (piecePosition c')) = Inr placed'
          \<and> clearFullRows placed' = Inr (newBoard', n')
          \<and> placePieceC k c' = Inr (us', out') \<and> applyUpdates us' s = Inr t
          \<longrightarrow> score t = score s + 100 * int n')
    \<and> (\<forall>ev c' t out'. (\<forall>k'. ev \<noteq> ClickStart k') \<and> fire ev c' s = Inr (t, out')
          \<longrightarrow> score s \<le> score t)
    \<and> (\<forall>ev c' t out'. fire ev c' s = Inr (t, out') \<longrightarrow> 0 \<le> score t)"
proof -
  obtain placed newBoard v where l:
    "place (board c) p (fst (piecePosition c)) (snd (piecePosition c)) = Inr placed"
    "is_board placed"
    "clearFullRows placed = Inr (newBoard, length (filter fullRow placed))"
    "placePieceC k c =
        Inr ((if 0 < length (filter fullRow placed)
              then [setScore_add (int (length (filter fullRow placed)) * 100)] else [])
             @ [setBoard newBoard]
             @ (if v then [setCurrentPiece (TETROMINOS k),
                           setPiecePosition (startX (TETROMINOS k), 0)]
                else [setGameOver True]),
             send c (if v then game_state newBoard (score c) else game_over (score c)))"
    using placePieceC_lock [OF assms(1-3), of k] by blast
  define n where "n = length (filter fullRow placed)"
  define us where "us = (if 0 < n then [setScore_add (int n * 100)] else [])
             @ [setBoard newBoard]
             @ (if v then [setCurrentPiece (TETROMINOS k),
                           setPiecePosition (startX (TETROMINOS k), 0)]
                else [setGameOver True])"
  define out where "out = send c (if v then game_state newBoard (score c) else game_over (score c))"
  have pc: "placePieceC k c = Inr (us, out)" using l(4) by (simp add: us_def out_def n_def)
  have "length placed = BOARD_HEIGHT" using l(2) by (simp add: is_board_def is_grid_def)
  then have n20: "n \<le> 20"
    unfolding n_def using length_filter_le [of fullRow placed] by (simp add: BOARD_HEIGHT_def)
  obtain s' where s': "applyUpdates us s = Inr s'" "score s' = score s + 100 * int n"
    unfolding us_def lock_exact [OF assms(4,5) n20] by (cases v) simp_all
  have own: "c = s \<longrightarrow> placePiece k s = Inr (s', out)"
    using pc s'(1) by (auto simp: placePiece_def commit_def)
  have gen: "\<forall>c' p' placed' newBoard' n' us' out' t.
          currentPiece c' = Some p'
          \<and> place (board c') p' (fst (piecePosition c')) (snd (piecePosition c')) = Inr placed'
          \<and> clearFullRows placed' = Inr (newBoard', n')
          \<and> placePieceC k c' = Inr (us', out') \<and> applyUpdates us' s = Inr t
          \<longrightarrow> score t = score s + 100 * int n'"
    using placePieceC_score by blast
  have mono: "\<forall>ev c' t out'. (\<forall>k'. ev \<noteq> ClickStart k') \<and> fire ev c' s = Inr (t, out')
          \<longrightarrow> score s \<le> score t"
    using fire_score_mono by blast
  have nonneg: "\<forall>ev c' t out'. fire ev c' s = Inr (t, out') \<longrightarrow> 0 \<le> score t"
    using fire_score_nonneg [OF assms(4)] by blast
  have "place (board c) p (fst (piecePosition c)) (snd (piecePosition c)) = Inr placed
    \<and> clearFullRows placed = Inr (newBoard, n)
    \<and> n = length (filter fullRow placed)
    \<and> placePieceC k c = Inr (us, out)
    \<and> applyUpdates us s = Inr s'
    \<and> score s' = score s + 100 * int n
    \<and> (n = 0 \<longrightarrow> score s' = score s)
    \<and> score s \<le> score s' \<and> 0 \<le> score s'
    \<and> (c = s \<longrightarrow> placePiece k s = Inr (s', out))"
    using l(1,3) pc s' own assms(4) by (simp add: n_def)
  then show ?thesis using gen mono nonneg by blast
qed

theorem lock_score_witness:
  "is_board (board (startGame K_O initialState
       \<lparr>board := emptyBoard[19 := [1,1,1,1,1,1,1,1,0,0]], piecePosition := (8, 18)\<rparr>))
   \<and> currentPiece (startGame K_O initialState
       \<lparr>board := emptyBoard[19 := [1,1,1,1,1,1,1,1,0,0]], piecePosition := (8, 18)\<rparr>)
       = Some (TETROMINOS K_O)
   \<and> inBounds (TETROMINOS K_O) 8 18
   \<and> (case placePiece K_T (startGame K_O initialState
       \<lparr>board := emptyBoard[19 := [1,1,1,1,1,1,1,1,0,0]], piecePosition := (8, 18)\<rparr>) of
         Inl e \<Rightarrow> False
       | Inr (s', out) \<Rightarrow> score s' = 100 \<and> board s' = emptyBoard[19 := [0,0,0,0,0,0,0,0,1,1]])
   \<and> (case runStale [Handle (Tick K_T), Handle (KeyDown ArrowDown K_T)]
         (startGame K_O initialState
           \<lparr>board := emptyBoard[19 := [1,1,1,1,1,1,1,1,0,0]], piecePosition := (8, 18)\<rparr>)
         (startGame K_O initialState
           \<lparr>board := emptyBoard[19 := [1,1,1,1,1,1,1,1,0,0]], piecePosition := (8, 18)\<rparr>) of
         Inl e \<Rightarrow> False
       | Inr (t, out) \<Rightarrow> score t = 200)"
proof -
  let ?s = "startGame K_O initialState
       \<lparr>board := emptyBoard[19 := [1,1,1,1,1,1,1,1,0,0]], piecePosition := (8, 18)\<rparr>"
  have b: "is_board (board ?s)" by code_simp
  have c: "currentPiece ?s = Some (TETROMINOS K_O)" by code_simp
  have i: "inBounds (TETROMINOS K_O) (fst (piecePosition ?s)) (snd (piecePosition ?s))"
    by code_simp
  have i': "inBounds (TETROMINOS K_O) 8 18" by code_simp
  have sc: "score ?s = 0" by code_simp
  have lo: "0 \<le> score ?s" and hi: "score ?s + 2000 \<le> 2 ^ 53" unfolding sc by simp_all
  have pl: "place (board ?s) (TETROMINOS K_O) (fst (piecePosition ?s)) (snd (piecePosition ?s))
      = Inr (emptyBoard[18 := [0,0,0,0,0,0,0,0,1,1], 19 := replicate 10 1])"
    by code_simp
  have n: "length (filter fullRow (emptyBoard[18 := [0,0,0,0,0,0,0,0,1,1], 19 := replicate 10 1])) = 1"
    by code_simp
  have e: "(case placePiece K_T ?s of Inl e \<Rightarrow> False
       | Inr (s', out) \<Rightarrow> board s' = emptyBoard[19 := [0,0,0,0,0,0,0,0,1,1]])"
    by code_simp
  have twice: "(case runStale [Handle (Tick K_T), Handle (KeyDown ArrowDown K_T)] ?s ?s of
         Inl e \<Rightarrow> False
       | Inr (t, out) \<Rightarrow> score t = 200)"
    by code_simp
  obtain s' out where "placePiece K_T ?s = Inr (s', out)" "score s' = 100"
    using lock_score [OF b c i lo hi, of K_T] unfolding pl sc by (auto simp: n)
  then show ?thesis using b c i' e twice by simp
qed

text \<open>
  Claim C2, evaluated where the code departs from it. Ten \<open>O\<close> pieces fall untouched in
  a connected game. When the tenth locks, on rows 0 and 1, the spawn position of every
  one of the seven shapes is illegal on the resulting board; yet \<open>placePiece\<close> checks it
  against the board of the render, where rows 0 and 1 are still empty: the game is not
  over, the new piece is set onto settled cells and a \<open>game_state\<close> message is sent. The
  game ends one lock later.
\<close>

theorem spawn_check_reads_old_board:
  "(case run ([ClickJoinRoom ''r'', WsOpen, ClickStart K_O] @ replicate 99 (Tick K_O)) initialState of
      Inl e \<Rightarrow> False
    | Inr (s, out) \<Rightarrow>
        ws s \<and> connected s \<and> \<not> gameOver s \<and> score s = 0
        \<and> currentPiece s = Some (TETROMINOS K_O) \<and> piecePosition s = (4, 0)
        \<and> canMove (board s) (TETROMINOS K_O) 4 0 = Inr True
        \<and> canMove (board s) (TETROMINOS K_O) 4 1 = Inr False
        \<and> list_all (\<lambda>k.
              case placePiece k s of
                Inl e \<Rightarrow> False
              | Inr (s', out') \<Rightarrow>
                  canMove (board s') (TETROMINOS k) (startX (TETROMINOS k)) 0 = Inr False
                  \<and> \<not> gameOver s'
                  \<and> out' = [game_state (board s') 0]
                  \<and> currentPiece s' = Some (TETROMINOS k)
                  \<and> piecePosition s' = (startX (TETROMINOS k), 0))
            [K_I, K_O, K_T, K_S, K_Z, K_J, K_L]
        \<and> (case step (Tick K_O) s of
              Inl e \<Rightarrow> False
            | Inr (s', out') \<Rightarrow>
                \<not> gameOver s' \<and> out' = [game_state (board s') 0]
                \<and> (case step (Tick K_O) s' of
                      Inl e \<Rightarrow> False
                    | Inr (s'', out'') \<Rightarrow>
                        gameOver s'' \<and> out'' = [game_over 0] \<and> board s'' = board s')))"
  by code_simp

theorem spawn_check_reads_old_board_witness:
  "\<exists>s out s' out'.
      run ([ClickJoinRoom ''r'', WsOpen, ClickStart K_O] @ replicate 99 (Tick K_O)) initialState
        = Inr (s, out)
    \<and> ws s \<and> connected s
    \<and> placePiece K_O s = Inr (s', out')
    \<and> canMove (board s') (TETROMINOS K_O) (startX (TETROMINOS K_O)) 0 = Inr False
    \<and> \<not> gameOver s'
    \<and> out' = [game_state (board s') 0]"
proof -
  define r where
    "r = run ([ClickJoinRoom ''r'', WsOpen, ClickStart K_O] @ replicate 99 (Tick K_O)) initialState"
  have "case r of
      Inl e \<Rightarrow> False
    | Inr (s, out) \<Rightarrow>
        ws s \<and> connected s \<and> \<not> gameOver s \<and> score s = 0
        \<and> currentPiece s = Some (TETROMINOS K_O) \<and> piecePosition s = (4, 0)
        \<and> canMove (board s) (TETROMINOS K_O) 4 0 = Inr True
        \<and> canMove (board s) (TETROMINOS K_O) 4 1 = Inr False
        \<and> list_all (\<lambda>k.
              case placePiece k s of
                Inl e \<Rightarrow> False
              | Inr (s', out') \<Rightarrow>
                  canMove (board s') (TETROMINOS k) (startX (TETROMINOS k)) 0 = Inr False
                  \<and> \<not> gameOver s'
                  \<and> out' = [game_state (board s') 0]
                  \<and> currentPiece s' = Some (TETROMINOS k)
                  \<and> piecePosition s' = (startX (TETROMINOS k), 0))
            [K_I, K_O, K_T, K_S, K_Z, K_J, K_L]
        \<and> (case step (Tick K_O) s of
              Inl e \<Rightarrow> False
            | Inr (s', out') \<Rightarrow>
                \<not> gameOver s' \<and> out' = [game_state (board s') 0]
                \<and> (case step (Tick K_O) s' of
                      Inl e \<Rightarrow> False
                    | Inr (s'', out'') \<Rightarrow>
                        gameOver s'' \<and> out'' = [game_over 0] \<and> board s'' = board s'))"
    unfolding r_def by (rule spawn_check_reads_old_board)
  then obtain s out where s: "r = Inr (s, out)" "ws s" "connected s"
    "case placePiece K_O s of
                Inl e \<Rightarrow> False
              | Inr (s', out') \<Rightarrow>
                  canMove (board s') (TETROMINOS K_O) (startX (TETROMINOS K_O)) 0 = Inr False
                  \<and> \<not> gameOver s'
                  \<and> out' = [game_state (board s') 0]
                  \<and> currentPiece s' = Some (TETROMINOS K_O)
                  \<and> piecePosition s' = (startX (TETROMINOS K_O), 0)"
    by (cases r) auto
  then obtain s' out' where "placePiece K_O s = Inr (s', out')"
    "canMove (board s') (TETROMINOS K_O) (startX (TETROMINOS K_O)) 0 = Inr False"
    "\<not> gameOver s'" "out' = [game_state (board s') 0]"
    by (cases "placePiece K_O s") auto
  then show ?thesis using s(1-3) unfolding r_def by blast
qed

text \<open>
  Claim C3, evaluated where the code departs from it. Two \<open>I\<close> pieces and an \<open>O\<close> piece
  are steered to fill row 19 in a connected game. The lock of the \<open>O\<close> piece clears the
  row and the score becomes 100; the \<open>game_state\<close> message of that lock carries the board
  after the clear and the score 0 of the render.
\<close>

theorem message_carries_old_score:
  "(case run ([ClickJoinRoom ''r'', WsOpen, ClickStart K_I]
              @ replicate 3 (KeyDown ArrowLeft K_I) @ replicate 20 (Tick K_I)
              @ [KeyDown ArrowRight K_O] @ replicate 20 (Tick K_O)
              @ replicate 4 (KeyDown ArrowRight K_T) @ replicate 18 (Tick K_T)) initialState of
      Inl e \<Rightarrow> False
    | Inr (s, out) \<Rightarrow>
        ws s \<and> connected s \<and> \<not> gameOver s \<and> score s = 0
        \<and> board s = emptyBoard[19 := [1,1,1,1,1,1,1,1,0,0]]
        \<and> currentPiece s = Some (TETROMINOS K_O) \<and> piecePosition s = (8, 18)
        \<and> (case placePiece K_T s of
              Inl e \<Rightarrow> False
            | Inr (s', out') \<Rightarrow>
                score s' = 100
                \<and> board s' = emptyBoard[19 := [0,0,0,0,0,0,0,0,1,1]]
                \<and> \<not> gameOver s'
                \<and> out' = [game_state (emptyBoard[19 := [0,0,0,0,0,0,0,0,1,1]]) 0])
        \<and> step (Tick K_T) s = placePiece K_T s)"
  by code_simp

theorem message_carries_old_score_witness:
  "\<exists>s out s'.
      run ([ClickJoinRoom ''r'', WsOpen, ClickStart K_I]
              @ replicate 3 (KeyDown ArrowLeft K_I) @ replicate 20 (Tick K_I)
              @ [KeyDown ArrowRight K_O] @ replicate 20 (Tick K_O)
              @ replicate 4 (KeyDown ArrowRight K_T) @ replicate 18 (Tick K_T)) initialState
        = Inr (s, out)
    \<and> ws s \<and> connected s \<and> score s = 0
    \<and> placePiece K_T s = Inr (s', [game_state (board s') 0])
    \<and> score s' = 100"
proof -
  define r where
    "r = run ([ClickJoinRoom ''r'', WsOpen, ClickStart K_I]
              @ replicate 3 (KeyDown ArrowLeft K_I) @ replicate 20 (Tick K_I)
              @ [KeyDown ArrowRight K_O] @ replicate 20 (Tick K_O)
              @ replicate 4 (KeyDown ArrowRight K_T) @ replicate 18 (Tick K_T)) initialState"
  have "case r of
      Inl e \<Rightarrow> False
    | Inr (s, out) \<Rightarrow>
        ws s \<and> connected s \<and> \<not> gameOver s \<and> score s = 0
        \<and> board s = emptyBoard[19 := [1,1,1,1,1,1,1,1,0,0]]
        \<and> currentPiece s = Some (TETROMINOS K_O) \<and> piecePosition s = (8, 18)
        \<and> (case placePiece K_T s of
              Inl e \<Rightarrow> False
            | Inr (s', out') \<Rightarrow>
                score s' = 100
                \<and> board s' = emptyBoard[19 := [0,0,0,0,0,0,0,0,1,1]]
                \<and> \<not> gameOver s'
                \<and> out' = [game_state (emptyBoard[19 := [0,0,0,0,0,0,0,0,1,1]]) 0])
        \<and> step (Tick K_T) s = placePiece K_T s"
    unfolding r_def by (rule message_carries_old_score)
  then obtain s out where s: "r = Inr (s, out)" "ws s" "connected s" "score s = 0"
    "case placePiece K_T s of
              Inl e \<Rightarrow> False
            | Inr (s', out') \<Rightarrow>
                score s' = 100
                \<and> board s' = emptyBoard[19 := [0,0,0,0,0,0,0,0,1,1]]
                \<and> \<not> gameOver s'
                \<and> out' = [game_state (emptyBoard[19 := [0,0,0,0,0,0,0,0,1,1]]) 0]"
    by (cases r) auto
  then obtain s' where "placePiece K_T s = Inr (s', [game_state (board s') 0])" "score s' = 100"
    by (cases "placePiece K_T s") auto
  then show ?thesis using s(1-4) unfolding r_def by blast
qed

text \<open>
  Claim C9, evaluated where the code departs from it. In a connected game a vertical \<open>I\<close>
  piece is steered to column 8 and falls to rows 16 to 19. The tick that locks it sets
  the new piece \<open>L\<close> at \<open>(4, 0)\<close>. An \<open>ArrowRight\<close> that comes before the next render is
  handled by the listener of the old render: it checks the old piece at \<open>(9, 16)\<close> and
  sets that position, which is now the position of the \<open>L\<close>, outside the right wall.
  The next lock writes column 11 of the 10-cell row 16 (\<open>NotDense\<close>: in JavaScript the
  row gets a hole at column 10), and the board is stored and sent. With \<open>I\<close> as the new
  piece the lock returns in the model too: row 16 of the board it stores and sends
  has 13 cells. When a render comes between the tick and the key, the new piece moves
  from \<open>(4, 0)\<close> to \<open>(5, 0)\<close> and stays legal.
\<close>

theorem stale_key_breaks_board:
  "(case runStale (spaced [ClickJoinRoom ''r'', WsOpen, ClickStart K_I, KeyDown ArrowUp K_I]
                   @ spaced (replicate 5 (KeyDown ArrowRight K_I))
                   @ spaced (replicate 16 (Tick K_I))
                   @ [Handle (Tick K_L), Handle (KeyDown ArrowRight K_L), Rerender])
          initialState initialState of
      Inl e \<Rightarrow> False
    | Inr (s, out) \<Rightarrow>
        ws s \<and> connected s \<and> gameStarted s \<and> \<not> gameOver s
        \<and> is_board (board s)
        \<and> out = [game_state (board s) 0]
        \<and> currentPiece s = Some (TETROMINOS K_L) \<and> piecePosition s = (9, 16)
        \<and> canMove (board s) (TETROMINOS K_L) 9 16 = Inr False
        \<and> length (board s ! 16) = 10
        \<and> setCell (board s) 16 11 1 = Inl NotDense
        \<and> list_all (\<lambda>k. step (Tick k) s = Inl NotDense) [K_I, K_O, K_T, K_S, K_Z, K_J, K_L])
   \<and> (case runStale (spaced [ClickJoinRoom ''r'', WsOpen, ClickStart K_I, KeyDown ArrowUp K_I]
                   @ spaced (replicate 5 (KeyDown ArrowRight K_I))
                   @ spaced (replicate 16 (Tick K_I))
                   @ [Handle (Tick K_I), Handle (KeyDown ArrowRight K_I), Rerender])
          initialState initialState of
      Inl e \<Rightarrow> False
    | Inr (s, out) \<Rightarrow>
        is_board (board s)
        \<and> currentPiece s = Some (TETROMINOS K_I) \<and> piecePosition s = (9, 16)
        \<and> canMove (board s) (TETROMINOS K_I) 9 16 = Inr False
        \<and> (case step (Tick K_T) s of
              Inl e \<Rightarrow> False
            | Inr (s', out') \<Rightarrow>
                board s' ! 16 = [0,0,0,0,0,0,0,0,1,1,1,1,1]
                \<and> \<not> is_board (board s')
                \<and> out' = [game_state (board s') 0]))
   \<and> (case run ([ClickJoinRoom ''r'', WsOpen, ClickStart K_I, KeyDown ArrowUp K_I]
                   @ replicate 5 (KeyDown ArrowRight K_I) @ replicate 16 (Tick K_I)
                   @ [Tick K_L, KeyDown ArrowRight K_L]) initialState of
      Inl e \<Rightarrow> False
    | Inr (s, out) \<Rightarrow>
        currentPiece s = Some (TETROMINOS K_L) \<and> piecePosition s = (5, 0)
        \<and> canMove (board s) (TETROMINOS K_L) 5 0 = Inr True)"
  by code_simp

theorem stale_key_breaks_board_witness:
  "\<exists>s out.
      runStale (spaced [ClickJoinRoom ''r'', WsOpen, ClickStart K_I, KeyDown ArrowUp K_I]
                   @ spaced (replicate 5 (KeyDown ArrowRight K_I))
                   @ spaced (replicate 16 (Tick K_I))
                   @ [Handle (Tick K_L), Handle (KeyDown ArrowRight K_L), Rerender])
          initialState initialState = Inr (s, out)
    \<and> is_board (board s)
    \<and> currentPiece s = Some (TETROMINOS K_L) \<and> piecePosition s = (9, 16)
    \<and> step (Tick K_T) s = Inl NotDense"
proof -
  define r where
    "r = runStale (spaced [ClickJoinRoom ''r'', WsOpen, ClickStart K_I, KeyDown ArrowUp K_I]
                   @ spaced (replicate 5 (KeyDown ArrowRight K_I))
                   @ spaced (replicate 16 (Tick K_I))
                   @ [Handle (Tick K_L), Handle (KeyDown ArrowRight K_L), Rerender])
          initialState initialState"
  have "case r of
      Inl e \<Rightarrow> False
    | Inr (s, out) \<Rightarrow>
        ws s \<and> connected s \<and> gameStarted s \<and> \<not> gameOver s
        \<and> is_board (board s)
        \<and> out = [game_state (board s) 0]
        \<and> currentPiece s = Some (TETROMINOS K_L) \<and> piecePosition s = (9, 16)
        \<and> canMove (board s) (TETROMINOS K_L) 9 16 = Inr False
        \<and> length (board s ! 16) = 10
        \<and> setCell (board s) 16 11 1 = Inl NotDense
        \<and> list_all (\<lambda>k. step (Tick k) s = Inl NotDense) [K_I, K_O, K_T, K_S, K_Z, K_J, K_L]"
    unfolding r_def using stale_key_breaks_board by (rule conjunct1)
  then obtain s out where "r = Inr (s, out)" "is_board (board s)"
    "currentPiece s = Some (TETROMINOS K_L)" "piecePosition s = (9, 16)"
    "step (Tick K_T) s = Inl NotDense"
    by (cases r) auto
  then show ?thesis unfolding r_def by blast
qed

section \<open>The opponent's board\<close>


section \<open>The lock without a piece\<close>

text \<open>
  Claim C10. With no active piece \<open>placePiece\<close> returns at once: the state (board, score,
  game-over flag, piece position, connection state and all the rest) is the state it was
  called in, and no message is sent.
\<close>

theorem placePiece_no_piece:
  assumes "currentPiece s = None"
  shows "placePiece k s = Inr (s, [])"
  using assms by (simp add: placePiece_def placePieceC_def commit_def)

theorem placePiece_no_piece_witness:
  "currentPiece initialState = None \<and> placePiece K_T initialState = Inr (initialState, [])"
proof -
  have n: "currentPiece initialState = None" by (simp add: initialState_def)
  show ?thesis using placePiece_no_piece [OF n, of K_T] n by simp
qed

end
